theory Spec2Isabelle
  imports Main
begin

section \<open>Tokens (Lexer.h, namespace lexer)\<close>

text \<open>
  The enumeration \<^verbatim>\<open>TokenType::Type\<close>, in the order of the source. A constructor
  \<open>x_T\<close> stands for the enumerator \<^verbatim>\<open>x_\<close> (\<open>for_T\<close> for \<^verbatim>\<open>for_\<close>, \<open>EOF_T\<close> for
  \<^verbatim>\<open>EOF_\<close>), and \<open>Not_T\<close>, \<open>Plus_T\<close> stand for \<^verbatim>\<open>Not\<close>, \<^verbatim>\<open>Plus\<close>.
\<close>

datatype TokenType =
    Equals | EqualsEquals | NotEquals | GreaterThan | LessThan | ShiftLeft | ShiftRight
  | Plus_T | Minus | Divide | Multiply | Exponent | Modulus | AND | ANDAND | OR | OROR
  | Dot | ColonColon
  | MinusMinus | Not_T | PlusPlus
  | Pointer | Reference | string_literal | char_literal | bool_literal
  | Semicolon | Colon | Comma
  | integer_literal | negative_integer_literal | float_literal
  | Identifier | KeyWord
  | for_T | while_T | public_T | private_T | protected_T | cast_T | return_T | null_T | in_T | if_T
  | constexpr_T | namespace_T
  | OParen | CParen | OCurlyBrace | CCurlyBrace | mutable_T | class_T | ClassType
  | PrimitiveType | EOF_T

text \<open>The numeric value of an enumerator (\<^verbatim>\<open>enum Type : uint8_t\<close>).\<close>

fun type_index :: "TokenType \<Rightarrow> nat" where
  "type_index Equals = 0" | "type_index EqualsEquals = 1" | "type_index NotEquals = 2"
| "type_index GreaterThan = 3" | "type_index LessThan = 4" | "type_index ShiftLeft = 5"
| "type_index ShiftRight = 6" | "type_index Plus_T = 7" | "type_index Minus = 8"
| "type_index Divide = 9" | "type_index Multiply = 10" | "type_index Exponent = 11"
| "type_index Modulus = 12" | "type_index AND = 13" | "type_index ANDAND = 14"
| "type_index OR = 15" | "type_index OROR = 16" | "type_index Dot = 17"
| "type_index ColonColon = 18" | "type_index MinusMinus = 19" | "type_index Not_T = 20"
| "type_index PlusPlus = 21" | "type_index Pointer = 22" | "type_index Reference = 23"
| "type_index string_literal = 24" | "type_index char_literal = 25"
| "type_index bool_literal = 26" | "type_index Semicolon = 27" | "type_index Colon = 28"
| "type_index Comma = 29" | "type_index integer_literal = 30"
| "type_index negative_integer_literal = 31" | "type_index float_literal = 32"
| "type_index Identifier = 33" | "type_index KeyWord = 34" | "type_index for_T = 35"
| "type_index while_T = 36" | "type_index public_T = 37" | "type_index private_T = 38"
| "type_index protected_T = 39" | "type_index cast_T = 40" | "type_index return_T = 41"
| "type_index null_T = 42" | "type_index in_T = 43" | "type_index if_T = 44"
| "type_index constexpr_T = 45" | "type_index namespace_T = 46" | "type_index OParen = 47"
| "type_index CParen = 48" | "type_index OCurlyBrace = 49" | "type_index CCurlyBrace = 50"
| "type_index mutable_T = 51" | "type_index class_T = 52" | "type_index ClassType = 53"
| "type_index PrimitiveType = 54" | "type_index EOF_T = 55"

definition isBinaryOperator :: "TokenType \<Rightarrow> bool" where
  "isBinaryOperator t = (type_index t < type_index MinusMinus)"

definition isUnaryOperator :: "TokenType \<Rightarrow> bool" where
  "isUnaryOperator t = (type_index t \<le> type_index PlusPlus \<and> type_index t \<ge> type_index MinusMinus)"

definition isAccessSpecifier :: "TokenType \<Rightarrow> bool" where
  "isAccessSpecifier t = (t = public_T \<or> t = protected_T \<or> t = private_T)"

text \<open>\<^verbatim>\<open>struct Token { std::string value; TokenType type; }\<close>\<close>

datatype Token = Token (tvalue: string) (ttype: TokenType)

definition isMultParseLevel :: "Token \<Rightarrow> bool" where
  "isMultParseLevel tk = (ttype tk = Multiply \<or> ttype tk = Divide \<or> ttype tk = Modulus)"

definition isRefOrPtr :: "Token \<Rightarrow> bool" where
  "isRefOrPtr tk = (ttype tk = Reference \<or> ttype tk = Pointer)"

text \<open>The table \<^verbatim>\<open>KEYWORDS\<close>; a lookup that finds nothing is \<open>None\<close>.\<close>

definition KEYWORDS :: "string \<Rightarrow> TokenType option" where
  "KEYWORDS = map_of
     [(''class'', class_T), (''private'', private_T), (''public'', public_T),
      (''protected'', protected_T), (''mutable'', mutable_T), (''cast'', cast_T),
      (''return'', return_T), (''for'', for_T), (''while'', while_T), (''in'', in_T),
      (''if'', if_T), (''null'', null_T), (''namespace'', namespace_T)]"

definition DEFAULT_TYPES :: "string list" where
  "DEFAULT_TYPES =
     [''auto'', ''char'', ''int8'', ''int16'', ''int32'', ''int64'',
      ''uint8'', ''uint16'', ''uint32'', ''uint64'',
      ''float'', ''double'', ''bool'', ''String'', ''void'']"

definition isDefaultType :: "string \<Rightarrow> bool" where
  "isDefaultType str = (str \<in> set DEFAULT_TYPES)"

section \<open>The lexer (class Lexer)\<close>

text \<open>
  The members of \<^verbatim>\<open>Lexer\<close>; \<open>idx\<close> is the member \<^verbatim>\<open>i\<close>. The process-wide set
  \<^verbatim>\<open>user_defined_classnames\<close> is carried in the same record, since \<^verbatim>\<open>buildIdentifier\<close>
  reads and extends it; \<open>tokenize\<close> below takes its content at the call and returns its
  content afterwards.
\<close>

record Lexer =
  srctext :: string
  tokens :: "Token list"
  idx :: nat
  LENGTH :: nat
  lastType :: TokenType
  user_defined_classnames :: "string set"

text \<open>
  \<^verbatim>\<open>srctext[ n ]\<close>: \<^verbatim>\<open>std::string::operator[]\<close> yields the terminating \<^verbatim>\<open>'\0'\<close> at
  \<open>n = size\<close>. The lexer never reads further (every read is at \<open>idx\<close> or \<open>idx + 1\<close> with
  \<open>idx\<close> at most \<open>LENGTH\<close>, resp. below it).
\<close>

definition at :: "string \<Rightarrow> nat \<Rightarrow> char" where
  "at str n = (if n < length str then str ! n else CHR 0x00)"

text \<open>\<^verbatim>\<open>str.substr( p, n )\<close> for \<open>p \<le> size\<close>.\<close>

definition substr :: "string \<Rightarrow> nat \<Rightarrow> nat \<Rightarrow> string" where
  "substr str p n = take n (drop p str)"

definition cur :: "Lexer \<Rightarrow> char" where
  "cur s = at (srctext s) (idx s)"

definition nextCharacterIsSame :: "Lexer \<Rightarrow> bool" where
  "nextCharacterIsSame s =
     (length (srctext s) > idx s + 1 \<and> at (srctext s) (idx s) = at (srctext s) (idx s + 1))"

definition nextCharacterIs :: "Lexer \<Rightarrow> char \<Rightarrow> bool" where
  "nextCharacterIs s c = (length (srctext s) > idx s + 1 \<and> at (srctext s) (idx s + 1) = c)"

definition isSkippable :: "Lexer \<Rightarrow> bool" where
  "isSkippable s = (cur s = CHR '' '' \<or> cur s = CHR 0x09 \<or> cur s = CHR 0x0A \<or> cur s = CHR 0x0D)"

definition isInt :: "Lexer \<Rightarrow> bool" where
  "isInt s = ((48::nat) \<le> of_char (cur s) \<and> of_char (cur s) \<le> (57::nat))"

text \<open>The test of \<^verbatim>\<open>isInt\<close> on a character.\<close>

definition is_digit :: "char \<Rightarrow> bool" where
  "is_digit c = ((48::nat) \<le> of_char c \<and> of_char c \<le> (57::nat))"

text \<open>\<^verbatim>\<open>toupper\<close> and \<^verbatim>\<open>tolower\<close> of the C locale: only the ASCII letters change.\<close>

definition toupper :: "char \<Rightarrow> char" where
  "toupper c = (if (97::nat) \<le> of_char c \<and> of_char c \<le> (122::nat)
                then char_of (of_char c - (32::nat)) else c)"

definition tolower :: "char \<Rightarrow> char" where
  "tolower c = (if (65::nat) \<le> of_char c \<and> of_char c \<le> (90::nat)
                then char_of (of_char c + (32::nat)) else c)"

definition isAlpha :: "Lexer \<Rightarrow> bool" where
  "isAlpha s = (toupper (cur s) \<noteq> tolower (cur s))"

definition isUserDefinedClass :: "Lexer \<Rightarrow> string \<Rightarrow> bool" where
  "isUserDefinedClass s str = (str \<in> user_defined_classnames s)"

text \<open>\<^verbatim>\<open>tokens.push_back( lexer::Token( v, lastType = ty ) )\<close>\<close>

definition push_back :: "Lexer \<Rightarrow> string \<Rightarrow> TokenType \<Rightarrow> Lexer" where
  "push_back s v ty = s\<lparr>tokens := tokens s @ [Token v ty], lastType := ty\<rparr>"

definition handleDoubleCharacter :: "Lexer \<Rightarrow> TokenType \<Rightarrow> Lexer" where
  "handleDoubleCharacter s ty =
     (push_back s (substr (srctext s) (idx s) 2) ty)\<lparr>idx := idx s + 1\<rparr>"

definition handleSingleCharacter :: "Lexer \<Rightarrow> TokenType \<Rightarrow> Lexer" where
  "handleSingleCharacter s ty = push_back s (substr (srctext s) (idx s) 1) ty"

text \<open>
  The loop of \<^verbatim>\<open>buildString\<close>: \<^verbatim>\<open>while ( ++i < LENGTH && srctext[ i ] != '"' )\<close>.
  \<open>Inl\<close> is the thrown \<^verbatim>\<open>std::runtime_error\<close>.
\<close>

function buildString_loop :: "Lexer \<Rightarrow> string \<Rightarrow> string + (Lexer \<times> string)" where
  "buildString_loop s str =
     (if idx s + 1 < LENGTH s \<and> at (srctext s) (idx s + 1) \<noteq> CHR 0x22 then
        (if at (srctext s) (idx s + 1) = CHR 0x0A \<or> at (srctext s) (idx s + 1) = CHR 0x0D
         then Inl ''invalid string literal!''
         else buildString_loop (s\<lparr>idx := idx s + 1\<rparr>) (str @ [at (srctext s) (idx s + 1)]))
      else Inr (s\<lparr>idx := idx s + 1\<rparr>, str))"
  by pat_completeness auto

termination
  by (relation "measure (\<lambda>(s, str). LENGTH s - idx s)") auto

declare buildString_loop.simps [simp del]

definition buildString :: "Lexer \<Rightarrow> string + Lexer" where
  "buildString s =
     (if idx s < LENGTH s \<and> at (srctext s) (idx s + 1) = CHR 0x22
      then Inr (push_back s [] string_literal)
      else case buildString_loop s [] of
             Inl e \<Rightarrow> Inl e
           | Inr (s1, str) \<Rightarrow>
               if idx s1 < LENGTH s1 \<and> cur s1 \<noteq> CHR 0x22
               then Inl ''invalid string literal!''
               else Inr (push_back s1 str string_literal))"

definition buildChar :: "Lexer \<Rightarrow> Lexer" where
  "buildChar s =
     (let s1 = s\<lparr>idx := idx s + 1\<rparr>;
          ch = substr (srctext s1) (idx s1) 1;
          ch2 = (if cur s1 = CHR 0x5C then ch @ [cur s1] else ch);
          s2 = s1\<lparr>idx := idx s1 + 1\<rparr>
      in push_back s2 ch2 char_literal)"

text \<open>\<^verbatim>\<open>while ( i < LENGTH && isInt() ) num += srctext[ i++ ];\<close>\<close>

function buildNumber_digits :: "Lexer \<Rightarrow> string \<Rightarrow> Lexer \<times> string" where
  "buildNumber_digits s num =
     (if idx s < LENGTH s \<and> isInt s
      then buildNumber_digits (s\<lparr>idx := idx s + 1\<rparr>) (num @ [cur s])
      else (s, num))"
  by pat_completeness auto

termination
  by (relation "measure (\<lambda>(s, num). LENGTH s - idx s)") auto

declare buildNumber_digits.simps [simp del]

text \<open>
  \<^verbatim>\<open>template< bool isNegative > void buildNumber()\<close>. The decrement \<^verbatim>\<open>i--\<close> is only
  reached with \<open>idx > 0\<close>: a digit or the sign has been passed before.
\<close>

definition buildNumber :: "bool \<Rightarrow> Lexer \<Rightarrow> Lexer" where
  "buildNumber isNegative s =
     (case buildNumber_digits s (if isNegative then ''-'' else '''') of
        (s1, num) \<Rightarrow>
          if idx s1 < LENGTH s1 \<and> cur s1 \<noteq> CHR ''.''
          then (push_back s1 num
                  (if isNegative then negative_integer_literal else integer_literal))
               \<lparr>idx := idx s1 - 1\<rparr>
          else (case buildNumber_digits (s1\<lparr>idx := idx s1 + 1\<rparr>) (num @ [cur s1]) of
                  (s3, num3) \<Rightarrow> push_back (s3\<lparr>idx := idx s3 - 1\<rparr>) num3 float_literal))"

function parseIdentifier_loop :: "Lexer \<Rightarrow> string \<Rightarrow> Lexer \<times> string" where
  "parseIdentifier_loop s ident =
     (if idx s < LENGTH s \<and> (isInt s \<or> isAlpha s \<or> cur s = CHR ''_'')
      then parseIdentifier_loop (s\<lparr>idx := idx s + 1\<rparr>) (ident @ [cur s])
      else (s, ident))"
  by pat_completeness auto

termination
  by (relation "measure (\<lambda>(s, ident). LENGTH s - idx s)") auto

declare parseIdentifier_loop.simps [simp del]

definition parseIdentifier :: "Lexer \<Rightarrow> Lexer \<times> string" where
  "parseIdentifier s =
     (case parseIdentifier_loop s [] of (s1, ident) \<Rightarrow> (s1\<lparr>idx := idx s1 - 1\<rparr>, ident))"

definition buildIdentifier :: "Lexer \<Rightarrow> Lexer" where
  "buildIdentifier s =
     (case parseIdentifier s of
        (s1, ident) \<Rightarrow>
          if ident = ''false'' \<or> ident = ''true'' then push_back s1 ident bool_literal
          else (case KEYWORDS ident of
                  Some ty \<Rightarrow> push_back s1 ident ty
                | None \<Rightarrow>
                    if isDefaultType ident then
                      (if ident = ''String'' then push_back s1 ident ClassType
                       else push_back s1 ident PrimitiveType)
                    else if lastType s1 = class_T then
                      push_back
                        (s1\<lparr>user_defined_classnames := insert ident (user_defined_classnames s1)\<rparr>)
                        ident ClassType
                    else if isUserDefinedClass s1 ident then push_back s1 ident ClassType
                    else push_back s1 ident Identifier))"

text \<open>
  The comment loop of \<^verbatim>\<open>case '/'\<close>:
  \<^verbatim>\<open>while ( i < LENGTH && c != '\n' ) c = srctext[ ++i ];\<close>
\<close>

function skipComment :: "Lexer \<Rightarrow> char \<Rightarrow> Lexer" where
  "skipComment s c =
     (if idx s < LENGTH s \<and> c \<noteq> CHR 0x0A
      then skipComment (s\<lparr>idx := idx s + 1\<rparr>) (at (srctext s) (idx s + 1))
      else s)"
  by pat_completeness auto

termination
  by (relation "measure (\<lambda>(s, c). LENGTH s - idx s)") auto

declare skipComment.simps [simp del]

text \<open>
  One pass through the \<^verbatim>\<open>switch\<close> of \<^verbatim>\<open>tokenize\<close> for a character that is not
  skippable: the loop goes on (\<open>Continue\<close>, before the \<^verbatim>\<open>++i\<close> of the \<^verbatim>\<open>for\<close>),
  \<^verbatim>\<open>tokenize\<close> returns a list (\<open>Return\<close>), or \<^verbatim>\<open>buildString\<close> throws (\<open>Throw\<close>).
\<close>

datatype scan_result = Continue Lexer | Return "Token list" | Throw string

definition scan :: "Lexer \<Rightarrow> scan_result" where
  "scan s =
    (let c = cur s in
     if c = CHR '';'' then Continue (handleSingleCharacter s Semicolon)
     else if c = CHR '','' then Continue (handleSingleCharacter s Comma)
     else if c = CHR ''('' then Continue (handleSingleCharacter s OParen)
     else if c = CHR '')'' then Continue (handleSingleCharacter s CParen)
     else if c = CHR ''{'' then Continue (handleSingleCharacter s OCurlyBrace)
     else if c = CHR ''}'' then Continue (handleSingleCharacter s CCurlyBrace)
     else if c = CHR ''<'' then
       Continue (if nextCharacterIsSame s then handleDoubleCharacter s ShiftLeft
                 else handleSingleCharacter s LessThan)
     else if c = CHR ''>'' then
       Continue (if nextCharacterIsSame s then handleDoubleCharacter s ShiftRight
                 else handleSingleCharacter s GreaterThan)
     else if c = CHR ''+'' then
       Continue (if nextCharacterIsSame s then handleDoubleCharacter s PlusPlus
                 else handleSingleCharacter s Plus_T)
     else if c = CHR ''~'' then Continue (handleSingleCharacter s Reference)
     else if c = CHR ''-'' then
       (if nextCharacterIs s (CHR ''>'') then Continue (handleDoubleCharacter s Pointer)
        else if isBinaryOperator (lastType s) \<or> lastType s = Equals
                \<or> lastType s = OParen \<or> lastType s = Comma
        then Continue (buildNumber True (s\<lparr>idx := idx s + 1\<rparr>))
        else Continue (if nextCharacterIsSame s then handleDoubleCharacter s MinusMinus
                       else handleSingleCharacter s Minus))
     else if c = CHR ''*'' then
       Continue (if nextCharacterIsSame s then handleDoubleCharacter s Exponent
                 else handleSingleCharacter s Multiply)
     else if c = CHR ''/'' then
       (if nextCharacterIsSame s then Continue (skipComment s (cur s))
        else Continue (handleSingleCharacter s Divide))
     else if c = CHR ''%'' then Continue (handleSingleCharacter s Modulus)
     else if c = CHR '':'' then
       Continue (if nextCharacterIsSame s then handleDoubleCharacter s ColonColon
                 else handleSingleCharacter s Colon)
     else if c = CHR ''&'' then
       Continue (if nextCharacterIsSame s then handleDoubleCharacter s ANDAND
                 else handleSingleCharacter s AND)
     else if c = CHR ''|'' then
       Continue (if nextCharacterIsSame s then handleDoubleCharacter s OROR
                 else handleSingleCharacter s OR)
     else if c = CHR ''='' then
       Continue (if nextCharacterIsSame s then handleDoubleCharacter s EqualsEquals
                 else handleSingleCharacter s Equals)
     else if c = CHR ''!'' then
       (if nextCharacterIs s (CHR ''='') then Continue (handleDoubleCharacter s NotEquals)
        else Continue (handleSingleCharacter s Not_T))
     else if c = CHR ''.'' then
       (if idx s + 1 < LENGTH s then
          (if isInt (s\<lparr>idx := idx s + 1\<rparr>)
           then Continue (buildNumber False (s\<lparr>idx := idx s + 1 - 1\<rparr>))
           else Continue (handleSingleCharacter (s\<lparr>idx := idx s + 1 - 1\<rparr>) Dot))
        else Continue (handleSingleCharacter s Dot))
     else if c = CHR 0x22 then
       (case buildString s of Inl e \<Rightarrow> Throw e | Inr s1 \<Rightarrow> Continue s1)
     else if c = CHR 0x27 then Continue (buildChar s)
     else if isInt s then Continue (buildNumber False s)
     else if isAlpha s then Continue (buildIdentifier s)
     else Return [])"

section \<open>Progress of the scanning loops\<close>

lemma buildNumber_digits_frame:
  "buildNumber_digits s num = (s1, num1) \<Longrightarrow> \<exists>k. idx s \<le> k \<and> s1 = s\<lparr>idx := k\<rparr>"
proof (induction s num arbitrary: s1 num1 rule: buildNumber_digits.induct)
  case (1 s num)
  show ?case
  proof (cases "idx s < LENGTH s \<and> isInt s")
    case True
    with 1(2) have "buildNumber_digits (s\<lparr>idx := idx s + 1\<rparr>) (num @ [cur s]) = (s1, num1)"
      by (subst (asm) buildNumber_digits.simps) simp
    from 1(1) [OF True this] obtain k where "idx s + 1 \<le> k" "s1 = s\<lparr>idx := k\<rparr>" by auto
    then show ?thesis by (intro exI [of _ k]) simp
  next
    case False
    with 1(2) have "s1 = s" by (subst (asm) buildNumber_digits.simps) auto
    then show ?thesis by (intro exI [of _ "idx s"]) simp
  qed
qed

lemma buildNumber_digits_step:
  assumes "idx s < LENGTH s" "isInt s" "buildNumber_digits s num = (s1, num1)"
  shows "\<exists>k. idx s < k \<and> s1 = s\<lparr>idx := k\<rparr>"
proof -
  from assms have "buildNumber_digits (s\<lparr>idx := idx s + 1\<rparr>) (num @ [cur s]) = (s1, num1)"
    by (subst (asm) buildNumber_digits.simps) simp
  from buildNumber_digits_frame [OF this] obtain k where "idx s + 1 \<le> k" "s1 = s\<lparr>idx := k\<rparr>"
    by auto
  then show ?thesis by (intro exI [of _ k]) simp
qed

lemma buildNumber_digits_stay:
  "\<not> (idx s < LENGTH s \<and> isInt s) \<Longrightarrow> buildNumber_digits s num = (s, num)"
  by (subst buildNumber_digits.simps) auto

lemma parseIdentifier_loop_frame:
  "parseIdentifier_loop s ident = (s1, ident1) \<Longrightarrow> \<exists>k. idx s \<le> k \<and> s1 = s\<lparr>idx := k\<rparr>"
proof (induction s ident arbitrary: s1 ident1 rule: parseIdentifier_loop.induct)
  case (1 s ident)
  show ?case
  proof (cases "idx s < LENGTH s \<and> (isInt s \<or> isAlpha s \<or> cur s = CHR ''_'')")
    case True
    with 1(2) have "parseIdentifier_loop (s\<lparr>idx := idx s + 1\<rparr>) (ident @ [cur s]) = (s1, ident1)"
      by (subst (asm) parseIdentifier_loop.simps) simp
    from 1(1) [OF True this] obtain k where "idx s + 1 \<le> k" "s1 = s\<lparr>idx := k\<rparr>" by auto
    then show ?thesis by (intro exI [of _ k]) simp
  next
    case False
    with 1(2) have "s1 = s" by (subst (asm) parseIdentifier_loop.simps) auto
    then show ?thesis by (intro exI [of _ "idx s"]) simp
  qed
qed

lemma parseIdentifier_frame:
  assumes "idx s < LENGTH s" "isAlpha s" "parseIdentifier s = (s1, ident)"
  shows "\<exists>k. idx s \<le> k \<and> s1 = s\<lparr>idx := k\<rparr>"
proof -
  obtain s0 where l: "parseIdentifier_loop s [] = (s0, ident)" and s1: "s1 = s0\<lparr>idx := idx s0 - 1\<rparr>"
    using assms(3) by (auto simp: parseIdentifier_def split: prod.splits)
  from l assms(1,2)
  have "parseIdentifier_loop (s\<lparr>idx := idx s + 1\<rparr>) ([] @ [cur s]) = (s0, ident)"
    by (subst (asm) parseIdentifier_loop.simps) simp
  from parseIdentifier_loop_frame [OF this] obtain k where "idx s + 1 \<le> k" "s0 = s\<lparr>idx := k\<rparr>"
    by auto
  with s1 show ?thesis by (intro exI [of _ "k - 1"]) simp
qed

lemma skipComment_frame: "\<exists>k. idx s \<le> k \<and> skipComment s c = s\<lparr>idx := k\<rparr>"
proof (induction s c rule: skipComment.induct)
  case (1 s c)
  show ?case
  proof (cases "idx s < LENGTH s \<and> c \<noteq> CHR 0x0A")
    case True
    from 1 [OF True] obtain k where k: "idx s + 1 \<le> k"
      "skipComment (s\<lparr>idx := idx s + 1\<rparr>) (at (srctext s) (idx s + 1)) = s\<lparr>idx := k\<rparr>"
      by auto
    have "skipComment s c = skipComment (s\<lparr>idx := idx s + 1\<rparr>) (at (srctext s) (idx s + 1))"
      using True by (subst skipComment.simps) simp
    with k show ?thesis by (intro exI [of _ k]) simp
  next
    case False
    then have "skipComment s c = s" by (subst skipComment.simps) auto
    then show ?thesis by (intro exI [of _ "idx s"]) simp
  qed
qed

lemma buildString_loop_frame:
  "buildString_loop s str = Inr (s1, str1) \<Longrightarrow> \<exists>k. idx s < k \<and> s1 = s\<lparr>idx := k\<rparr>"
proof (induction s str arbitrary: s1 str1 rule: buildString_loop.induct)
  case (1 s str)
  show ?case
  proof (cases "idx s + 1 < LENGTH s \<and> at (srctext s) (idx s + 1) \<noteq> CHR 0x22")
    case True
    with 1(2) have nl: "\<not> (at (srctext s) (idx s + 1) = CHR 0x0A \<or> at (srctext s) (idx s + 1) = CHR 0x0D)"
      by (subst (asm) buildString_loop.simps) (auto split: if_splits)
    with True 1(2) have "buildString_loop (s\<lparr>idx := idx s + 1\<rparr>) (str @ [at (srctext s) (idx s + 1)]) = Inr (s1, str1)"
      by (subst (asm) buildString_loop.simps) simp
    from 1(1) [OF True nl this] obtain k where "idx s + 1 < k" "s1 = s\<lparr>idx := k\<rparr>" by auto
    then show ?thesis by (intro exI [of _ k]) simp
  next
    case False
    with 1(2) have "s1 = s\<lparr>idx := idx s + 1\<rparr>" by (subst (asm) buildString_loop.simps) auto
    then show ?thesis by (intro exI [of _ "idx s + 1"]) simp
  qed
qed

text \<open>What one pass of the \<^verbatim>\<open>switch\<close> leaves alone, and what it may change.\<close>

definition lex_frame :: "Lexer \<Rightarrow> Lexer \<Rightarrow> bool" where
  "lex_frame s s1 = (srctext s1 = srctext s \<and> LENGTH s1 = LENGTH s \<and> idx s \<le> idx s1
     \<and> user_defined_classnames s \<subseteq> user_defined_classnames s1
     \<and> (\<exists>ts. tokens s1 = tokens s @ ts \<and> (\<forall>t \<in> set ts. ttype t \<noteq> EOF_T)))"

lemma lex_frame_push_back:
  "ty \<noteq> EOF_T \<Longrightarrow> idx s \<le> k \<Longrightarrow> lex_frame s (push_back (s\<lparr>idx := k\<rparr>) v ty)"
  by (simp add: lex_frame_def push_back_def)

lemma lex_frame_single: "ty \<noteq> EOF_T \<Longrightarrow> lex_frame s (handleSingleCharacter s ty)"
  by (simp add: handleSingleCharacter_def lex_frame_def push_back_def)

lemma lex_frame_double: "ty \<noteq> EOF_T \<Longrightarrow> lex_frame s (handleDoubleCharacter s ty)"
  by (simp add: handleDoubleCharacter_def lex_frame_def push_back_def)

lemma lex_frame_buildChar: "lex_frame s (buildChar s)"
  by (simp add: buildChar_def Let_def lex_frame_def push_back_def)

lemma lex_frame_skipComment: "lex_frame s (skipComment s c)"
  using skipComment_frame [of s c] by (auto simp: lex_frame_def)

lemma lex_frame_buildString: "buildString s = Inr s1 \<Longrightarrow> lex_frame s s1"
  by (auto simp: buildString_def lex_frame_def push_back_def split: if_splits sum.splits
      dest!: buildString_loop_frame)

lemma isInt_dot: "cur s = CHR ''.'' \<Longrightarrow> \<not> isInt s"
  by (simp add: isInt_def)

lemma buildNumber_shape:
  "\<exists>k v ty. buildNumber neg s = push_back (s\<lparr>idx := k\<rparr>) v ty
     \<and> (ty = integer_literal \<or> ty = negative_integer_literal \<or> ty = float_literal)
     \<and> idx s - 1 \<le> k
     \<and> (cur s = CHR ''.'' \<or> (isInt s \<and> idx s < LENGTH s) \<longrightarrow> idx s \<le> k)"
proof -
  define pre where "pre = (if neg then ''-'' else [])"
  obtain s1 num where d: "buildNumber_digits s pre = (s1, num)"
    by (cases "buildNumber_digits s pre")
  from buildNumber_digits_frame [OF d] obtain k where k: "idx s \<le> k" "s1 = s\<lparr>idx := k\<rparr>"
    by auto
  show ?thesis
  proof (cases "idx s1 < LENGTH s1 \<and> cur s1 \<noteq> CHR ''.''")
    case True
    have "cur s = CHR ''.'' \<or> (isInt s \<and> idx s < LENGTH s) \<longrightarrow> idx s < k"
    proof (cases "isInt s \<and> idx s < LENGTH s")
      case True
      with buildNumber_digits_step [OF _ _ d] obtain ka where "idx s < ka" "s1 = s\<lparr>idx := ka\<rparr>"
        by auto
      then have "idx s < idx s1" by simp
      with k show ?thesis by simp
    next
      case False
      then have "buildNumber_digits s pre = (s, pre)"
        by (intro buildNumber_digits_stay) auto
      with d have "s1 = s" by simp
      with True False show ?thesis by auto
    qed
    with True d k show ?thesis
      by (intro exI [of _ "k - 1"] exI [of _ num]
          exI [of _ "if neg then negative_integer_literal else integer_literal"])
         (auto simp: buildNumber_def push_back_def pre_def)
  next
    case False
    obtain s3 num3 where d3: "buildNumber_digits (s1\<lparr>idx := idx s1 + 1\<rparr>) (num @ [cur s1]) = (s3, num3)"
      by (cases "buildNumber_digits (s1\<lparr>idx := idx s1 + 1\<rparr>) (num @ [cur s1])")
    from buildNumber_digits_frame [OF d3] k obtain k3 where k3: "k + 1 \<le> k3" "s3 = s\<lparr>idx := k3\<rparr>"
      by auto
    with False d d3 k show ?thesis
      by (intro exI [of _ "k3 - 1"] exI [of _ num3] exI [of _ float_literal])
         (auto simp: buildNumber_def push_back_def pre_def)
  qed
qed

lemma lex_frame_buildNumber_neg: "lex_frame s (buildNumber neg (s\<lparr>idx := Suc (idx s)\<rparr>))"
proof -
  from buildNumber_shape [of neg "s\<lparr>idx := Suc (idx s)\<rparr>"]
  obtain k v ty where "buildNumber neg (s\<lparr>idx := Suc (idx s)\<rparr>) = push_back (s\<lparr>idx := k\<rparr>) v ty"
    "ty \<noteq> EOF_T" "idx s \<le> k" by auto
  then show ?thesis by (simp add: lex_frame_push_back)
qed

lemma lex_frame_buildNumber:
  "cur s = CHR ''.'' \<or> (isInt s \<and> idx s < LENGTH s) \<Longrightarrow> lex_frame s (buildNumber neg s)"
proof -
  assume a: "cur s = CHR ''.'' \<or> (isInt s \<and> idx s < LENGTH s)"
  from buildNumber_shape [of neg s] a
  obtain k v ty where "buildNumber neg s = push_back (s\<lparr>idx := k\<rparr>) v ty"
    "ty \<noteq> EOF_T" "idx s \<le> k" by auto
  then show ?thesis by (simp add: lex_frame_push_back)
qed

lemma KEYWORDS_not_EOF: "KEYWORDS ident = Some ty \<Longrightarrow> ty \<noteq> EOF_T"
  by (auto simp: KEYWORDS_def split: if_splits)

lemma lex_frame_buildIdentifier:
  assumes "idx s < LENGTH s" "isAlpha s"
  shows "lex_frame s (buildIdentifier s)"
proof -
  obtain s1 ident where p: "parseIdentifier s = (s1, ident)" by (cases "parseIdentifier s")
  from parseIdentifier_frame [OF assms p] obtain k where k: "idx s \<le> k" "s1 = s\<lparr>idx := k\<rparr>"
    by auto
  show ?thesis
    using p k
    by (auto simp: buildIdentifier_def lex_frame_def push_back_def
        split: option.splits dest: KEYWORDS_not_EOF)
qed

lemma scan_frame:
  assumes "idx s < LENGTH s" "scan s = Continue s1"
  shows "lex_frame s s1"
  using assms
  by (auto simp: scan_def Let_def lex_frame_single lex_frame_double lex_frame_buildChar
      lex_frame_skipComment lex_frame_buildNumber_neg lex_frame_buildNumber
      lex_frame_buildIdentifier
      split: if_splits sum.splits dest: lex_frame_buildString)

lemma scan_Return: "scan s = Return ts \<Longrightarrow> ts = []"
  by (auto simp: scan_def Let_def split: if_splits sum.splits)

text \<open>
  The \<^verbatim>\<open>for\<close> loop of \<^verbatim>\<open>tokenize\<close>. The result is the returned list (\<open>Inr\<close>) or the
  exception (\<open>Inl\<close>), with the content of \<^verbatim>\<open>user_defined_classnames\<close> afterwards.
\<close>

function tokenize_loop :: "Lexer \<Rightarrow> (string + Token list) \<times> string set" where
  "tokenize_loop s =
     (if idx s < LENGTH s then
        (if isSkippable s then tokenize_loop (s\<lparr>idx := idx s + 1\<rparr>)
         else case scan s of
                Continue s1 \<Rightarrow> tokenize_loop (s1\<lparr>idx := idx s1 + 1\<rparr>)
              | Return ts \<Rightarrow> (Inr ts, user_defined_classnames s)
              | Throw e \<Rightarrow> (Inl e, user_defined_classnames s))
      else (Inr (tokens s @ [Token [] EOF_T]), user_defined_classnames s))"
  by pat_completeness auto

termination
proof (relation "measure (\<lambda>s. LENGTH s - idx s)")
  show "wf (measure (\<lambda>s. LENGTH s - idx s))" by simp
next
  fix s :: Lexer
  assume "idx s < LENGTH s"
  then show "(s\<lparr>idx := idx s + 1\<rparr>, s) \<in> measure (\<lambda>s. LENGTH s - idx s)" by simp
next
  fix s s1 :: Lexer
  assume "idx s < LENGTH s" "scan s = Continue s1"
  from scan_frame [OF this] \<open>idx s < LENGTH s\<close>
  show "(s1\<lparr>idx := idx s1 + 1\<rparr>, s) \<in> measure (\<lambda>s. LENGTH s - idx s)"
    by (auto simp: lex_frame_def)
qed

declare tokenize_loop.simps [simp del]

text \<open>
  \<^verbatim>\<open>Lexer lex { source }; lex.tokenize()\<close> with \<open>U\<close> the content of
  \<^verbatim>\<open>user_defined_classnames\<close> at the call. A fresh lexer has \<^verbatim>\<open>i = 0\<close>, no tokens, and
  \<^verbatim>\<open>lastType\<close> default-constructed, which is \<^verbatim>\<open>EOF_\<close>.
\<close>

definition tokenize :: "string set \<Rightarrow> string \<Rightarrow> (string + Token list) \<times> string set" where
  "tokenize U src =
     tokenize_loop \<lparr>srctext = src, tokens = [], idx = 0, LENGTH = length src,
                    lastType = EOF_T, user_defined_classnames = U\<rparr>"

text \<open>
  The states in which the \<^verbatim>\<open>for\<close> loop of \<^verbatim>\<open>tokenize\<close> tests \<^verbatim>\<open>i < LENGTH\<close>, in the order
  of the run: the state \<open>s\<close> in which the loop is entered and, after every pass that ends in
  \<^verbatim>\<open>continue\<close>, the state after the \<^verbatim>\<open>++i\<close>. The run ends in the last state of the list:
  there the test fails, or the \<^verbatim>\<open>switch\<close> returns or throws.
\<close>

function loop_states :: "Lexer \<Rightarrow> Lexer list" where
  "loop_states s =
     s # (if idx s < LENGTH s then
            (if isSkippable s then loop_states (s\<lparr>idx := idx s + 1\<rparr>)
             else case scan s of
                    Continue s1 \<Rightarrow> loop_states (s1\<lparr>idx := idx s1 + 1\<rparr>)
                  | Return ts \<Rightarrow> []
                  | Throw e \<Rightarrow> [])
          else [])"
  by pat_completeness auto

termination
proof (relation "measure (\<lambda>s. LENGTH s - idx s)")
  show "wf (measure (\<lambda>s. LENGTH s - idx s))" by simp
next
  fix s :: Lexer
  assume "idx s < LENGTH s"
  then show "(s\<lparr>idx := idx s + 1\<rparr>, s) \<in> measure (\<lambda>s. LENGTH s - idx s)" by simp
next
  fix s s1 :: Lexer
  assume "idx s < LENGTH s" "scan s = Continue s1"
  from scan_frame [OF this] \<open>idx s < LENGTH s\<close>
  show "(s1\<lparr>idx := idx s1 + 1\<rparr>, s) \<in> measure (\<lambda>s. LENGTH s - idx s)"
    by (auto simp: lex_frame_def)
qed

declare loop_states.simps [simp del]

text \<open>The states of the loop in a call of \<^verbatim>\<open>tokenize\<close> on the source \<open>src\<close>.\<close>

definition tokenize_states :: "string set \<Rightarrow> string \<Rightarrow> Lexer list" where
  "tokenize_states U src =
     loop_states \<lparr>srctext = src, tokens = [], idx = 0, LENGTH = length src,
                  lastType = EOF_T, user_defined_classnames = U\<rparr>"

section \<open>The syntax tree (AST.h)\<close>

text \<open>
  The node classes that the parser builds. \<open>Identifier_ast\<close> is \<^verbatim>\<open>ast::Identifier\<close>; the three
  instances of \<^verbatim>\<open>NumericLiteral\<close> are three constructors, with the value that \<^verbatim>\<open>atoll\<close>
  gives, resp. the text handed to \<^verbatim>\<open>atof\<close>. \<^verbatim>\<open>FieldDeclaration\<close> and
  \<^verbatim>\<open>MethodDeclaration\<close> hold the node of the variable or function they wrap.
\<close>

datatype AccessSpecifier = Public | Private | Protected

datatype TypeName = TypeName (tn_name: string) (tn_isMutable: bool) (tn_ptr_or_ref: string)

datatype Parameter = Parameter (p_type: TypeName) (p_name: string)

datatype Expression =
    Identifier_ast string
  | NumericLiteral_int64 int
  | NumericLiteral_uint64 int
  | NumericLiteral_double string
  | StringLiteral string
  | CharacterLiteral string
  | BoolLiteral bool
  | BinaryExpression Expression string Expression
  | AssignmentExpression Expression Expression
  | VariableDeclaration bool TypeName string "Expression option"
  | FunctionDeclaration TypeName string "Parameter list" "Expression list"
  | FunctionCall string "Expression list"
  | ReturnStatement Expression
  | ClassDeclaration TypeName "FieldDeclaration list" "MethodDeclaration list"
  | NameSpaceDeclaration string "Expression list"
  | IfStatement Expression "Expression list"
and FieldDeclaration = FieldDeclaration Expression AccessSpecifier
and MethodDeclaration = MethodDeclaration Expression AccessSpecifier

type_synonym Statement = Expression

type_synonym StatementList = "Expression list"

text \<open>
  What a call of a parser function comes to: a value, a thrown \<^verbatim>\<open>std::runtime_error\<close> with
  its message, a read of \<^verbatim>\<open>tokens[ i ]\<close> past the end of the vector (undefined behaviour
  in the source), or the end of the call depth that the model counts.
\<close>

datatype 'a result = Ok 'a | Error string | Undefined | OutOfFuel

definition and_then :: "'a result \<Rightarrow> ('a \<Rightarrow> 'b result) \<Rightarrow> 'b result" where
  "and_then m f = (case m of Ok x \<Rightarrow> f x | Error e \<Rightarrow> Error e | Undefined \<Rightarrow> Undefined
                   | OutOfFuel \<Rightarrow> OutOfFuel)"

lemma and_then_simps [simp]:
  "and_then (Ok x) f = f x" "and_then (Error e) f = Error e"
  "and_then Undefined f = Undefined" "and_then OutOfFuel f = OutOfFuel"
  by (simp_all add: and_then_def)

text \<open>The constructors of \<^verbatim>\<open>TypeName\<close> and \<^verbatim>\<open>Parameter\<close>; the first one can throw.\<close>

definition TypeName_ctor :: "string \<Rightarrow> bool \<Rightarrow> bool \<Rightarrow> bool \<Rightarrow> TypeName result" where
  "TypeName_ctor nm isMutable isRef isPtr =
     (if isRef \<and> isPtr then Error ''cannot be both reference and ptr''
      else Ok (TypeName nm isMutable (if isPtr then ''->'' else if isRef then ''~'' else '''')))"

definition Parameter_ctor :: "bool \<Rightarrow> string \<Rightarrow> bool \<Rightarrow> bool \<Rightarrow> string \<Rightarrow> Parameter result" where
  "Parameter_ctor isMutable ty isRef isPtr nm =
     and_then (TypeName_ctor ty isMutable isRef isPtr) (\<lambda>t. Ok (Parameter t nm))"

text \<open>
  \<^verbatim>\<open>atoll\<close> of the C library, which is \<^verbatim>\<open>strtoll\<close> in base 10: white space, an optional
  sign, then the digits; a value outside the range of \<^verbatim>\<open>long long\<close> is replaced by
  \<^verbatim>\<open>LLONG_MAX\<close> resp. \<^verbatim>\<open>LLONG_MIN\<close>.
\<close>

fun digits_value :: "string \<Rightarrow> int \<Rightarrow> int" where
  "digits_value [] acc = acc"
| "digits_value (c # cs) acc =
     (if is_digit c then digits_value cs (10 * acc + (int (of_char c) - 48)) else acc)"

definition atoll :: "string \<Rightarrow> int" where
  "atoll str =
     max (- (2 ^ 63)) (min (2 ^ 63 - 1)
       (case dropWhile (\<lambda>c. c \<in> set [CHR '' '', CHR 0x09, CHR 0x0A, CHR 0x0B, CHR 0x0C, CHR 0x0D]) str of
          [] \<Rightarrow> 0
        | c # cs \<Rightarrow> if c = CHR ''-'' then - digits_value cs 0
                    else if c = CHR ''+'' then digits_value cs 0
                    else digits_value (c # cs) 0))"

section \<open>The parser (class Parser)\<close>

text \<open>The token vector is \<open>ts\<close> and the member \<^verbatim>\<open>i\<close> is passed along.\<close>

definition peek :: "Token list \<Rightarrow> nat \<Rightarrow> Token result" where
  "peek ts i = (if i < length ts then Ok (ts ! i) else Undefined)"

definition eat :: "Token list \<Rightarrow> nat \<Rightarrow> (Token \<times> nat) result" where
  "eat ts i = (if i < length ts then Ok (ts ! i, i + 1) else Undefined)"

definition peekNext :: "Token list \<Rightarrow> nat \<Rightarrow> Token result" where
  "peekNext ts i = (if i + 1 < length ts then Ok (ts ! (i + 1)) else Undefined)"

definition peekTo :: "Token list \<Rightarrow> nat \<Rightarrow> Token result" where
  "peekTo ts k = (if k \<ge> length ts then (if ts = [] then Undefined else Ok (last ts))
                  else Ok (ts ! k))"

definition not_eof :: "Token list \<Rightarrow> nat \<Rightarrow> bool result" where
  "not_eof ts i = and_then (peek ts i) (\<lambda>tk. Ok (ttype tk \<noteq> EOF_T))"

definition expect :: "TokenType \<Rightarrow> string \<Rightarrow> Token list \<Rightarrow> nat \<Rightarrow> (Token \<times> nat) result" where
  "expect ty err ts i =
     and_then (eat ts i) (\<lambda>(tk, i1).
       if ttype tk \<noteq> ty then Error (''Unexpected token type'' @ [CHR 0x0A] @ err)
       else Ok (tk, i1))"

definition expect2 ::
  "TokenType \<Rightarrow> TokenType \<Rightarrow> string \<Rightarrow> Token list \<Rightarrow> nat \<Rightarrow> (Token \<times> nat) result" where
  "expect2 ty1 ty2 err ts i =
     and_then (eat ts i) (\<lambda>(tk, i1).
       if ttype tk \<noteq> ty1 \<and> ttype tk \<noteq> ty2 then Error (''Unexpected token type'' @ [CHR 0x0A] @ err)
       else Ok (tk, i1))"

definition eatIfRefOrPtr :: "Token list \<Rightarrow> nat \<Rightarrow> (bool \<times> bool \<times> nat) result" where
  "eatIfRefOrPtr ts i =
     and_then (peek ts i) (\<lambda>tk.
       if ttype tk = Reference then and_then (eat ts i) (\<lambda>(_, i1). Ok (True, False, i1))
       else if ttype tk = Pointer then and_then (eat ts i) (\<lambda>(_, i1). Ok (False, True, i1))
       else Ok (False, False, i))"

definition eatIfMutable :: "Token list \<Rightarrow> nat \<Rightarrow> (bool \<times> nat) result" where
  "eatIfMutable ts i =
     and_then (peek ts i) (\<lambda>tk.
       if ttype tk = mutable_T then and_then (eat ts i) (\<lambda>(_, i1). Ok (True, i1))
       else Ok (False, i))"

text \<open>The macro of the same name: the \<^verbatim>\<open>dynamic_cast\<close> tests on the condition.\<close>

definition NOT_VALID_IF_CONDITION :: "Expression \<Rightarrow> bool" where
  "NOT_VALID_IF_CONDITION condition =
     (case condition of
        BinaryExpression _ _ _ \<Rightarrow> False
      | BoolLiteral _ \<Rightarrow> False
      | NumericLiteral_int64 _ \<Rightarrow> False
      | NumericLiteral_uint64 _ \<Rightarrow> False
      | NumericLiteral_double _ \<Rightarrow> False
      | _ \<Rightarrow> True)"

text \<open>
  The expression parsers call one another in a cycle, and the loops inside them go on as
  long as the tokens ask for it. The model counts the depth of calls: \<open>expr_parsers\<close> holds
  the parsers of one depth, each body below is the body of the source function with its
  calls going to the parsers \<open>self\<close> of the depth below, and at depth \<open>0\<close> every parser
  gives \<open>OutOfFuel\<close>. A loop is a function that calls itself for the next iteration.
\<close>

record expr_parsers =
  r_parseExpression :: "bool \<Rightarrow> Token list \<Rightarrow> nat \<Rightarrow> (Expression \<times> nat) result"
  r_parseAssignmentExpression :: "bool \<Rightarrow> Token list \<Rightarrow> nat \<Rightarrow> (Expression \<times> nat) result"
  r_parseVariableDeclaration :: "Token list \<Rightarrow> nat \<Rightarrow> (Expression \<times> nat) result"
  r_parseFunctionCall :: "bool \<Rightarrow> Token list \<Rightarrow> nat \<Rightarrow> (Expression \<times> nat) result"
  r_parseFunctionCall_loop ::
    "Token list \<Rightarrow> nat \<Rightarrow> Token \<Rightarrow> Expression list \<Rightarrow> (Expression list \<times> nat) result"
  r_parseBooleanExpression :: "Token list \<Rightarrow> nat \<Rightarrow> (Expression \<times> nat) result"
  r_parseBooleanExpression_loop :: "Token list \<Rightarrow> nat \<Rightarrow> Expression \<Rightarrow> (Expression \<times> nat) result"
  r_parseAdditiveExpression :: "Token list \<Rightarrow> nat \<Rightarrow> (Expression \<times> nat) result"
  r_parseAdditiveExpression_loop :: "Token list \<Rightarrow> nat \<Rightarrow> Expression \<Rightarrow> (Expression \<times> nat) result"
  r_parseMultiplicativeExpression :: "Token list \<Rightarrow> nat \<Rightarrow> (Expression \<times> nat) result"
  r_parseMultiplicativeExpression_loop ::
    "Token list \<Rightarrow> nat \<Rightarrow> Expression \<Rightarrow> (Expression \<times> nat) result"
  r_parseExponentialExpression :: "Token list \<Rightarrow> nat \<Rightarrow> (Expression \<times> nat) result"
  r_parseExponentialExpression_loop ::
    "Token list \<Rightarrow> nat \<Rightarrow> Expression \<Rightarrow> (Expression \<times> nat) result"
  r_parseDotExpression :: "Token list \<Rightarrow> nat \<Rightarrow> (Expression \<times> nat) result"
  r_parseDotExpression_loop :: "Token list \<Rightarrow> nat \<Rightarrow> Expression \<Rightarrow> (Expression \<times> nat) result"
  r_parsePrimaryExpression :: "Token list \<Rightarrow> nat \<Rightarrow> (Expression \<times> nat) result"

definition parseExpression_body ::
  "expr_parsers \<Rightarrow> bool \<Rightarrow> Token list \<Rightarrow> nat \<Rightarrow> (Expression \<times> nat) result" where
  "parseExpression_body self TopCall ts i = r_parseAssignmentExpression self TopCall ts i"

definition parseAssignmentExpression_body ::
  "expr_parsers \<Rightarrow> bool \<Rightarrow> Token list \<Rightarrow> nat \<Rightarrow> (Expression \<times> nat) result" where
  "parseAssignmentExpression_body self TopCall ts i =
     and_then
       (if TopCall then
          and_then (peekNext ts i) (\<lambda>next.
            Ok (ttype next = ClassType \<or> ttype next = PrimitiveType
                \<or> ttype next = Reference \<or> ttype next = Pointer))
        else Ok False)
       (\<lambda>isDeclaration.
          if isDeclaration then r_parseVariableDeclaration self ts i
          else
            and_then (r_parseBooleanExpression self ts i) (\<lambda>(left, i1).
            and_then (peek ts i1) (\<lambda>tk.
            and_then
              (if ttype tk = Equals then
                 and_then (eat ts i1) (\<lambda>(_, i2).
                 and_then (r_parseAssignmentExpression self False ts i2) (\<lambda>(right, i3).
                 Ok (AssignmentExpression left right, i3)))
               else Ok (left, i1))
              (\<lambda>(left1, i4).
                 if TopCall then
                   and_then (expect Semicolon ''must end statement with semicolon'' ts i4)
                     (\<lambda>(_, i5). Ok (left1, i5))
                 else Ok (left1, i4)))))"

definition parseVariableDeclaration_body ::
  "expr_parsers \<Rightarrow> Token list \<Rightarrow> nat \<Rightarrow> (Expression \<times> nat) result" where
  "parseVariableDeclaration_body self ts i =
     and_then (eatIfMutable ts i) (\<lambda>(isMutable, i1).
     and_then (expect2 ClassType PrimitiveType ''expected type in variable declaration'' ts i1)
       (\<lambda>(typetk, i2).
     and_then (eatIfRefOrPtr ts i2) (\<lambda>(isRef, isPtr, i3).
     and_then (TypeName_ctor (tvalue typetk) isMutable isRef isPtr) (\<lambda>ty.
     and_then (expect Identifier ''Expected an identifier for a variable'' ts i3) (\<lambda>(nametk, i4).
     and_then (peek ts i4) (\<lambda>tk.
       if ttype tk = Semicolon then
         and_then (eat ts i4) (\<lambda>(_, i5).
         Ok (VariableDeclaration False ty (tvalue nametk) None, i5))
       else
         and_then (expect Equals
                     (''Expected an '' @ [CHR 0x27] @ ''='' @ [CHR 0x27] @ '' after identifier.'')
                     ts i4)
           (\<lambda>(_, i5).
         and_then (r_parseExpression self True ts i5) (\<lambda>(expr, i6).
         Ok (VariableDeclaration isMutable ty (tvalue nametk) (Some expr), i6)))))))))"

definition parseFunctionCall_body ::
  "expr_parsers \<Rightarrow> bool \<Rightarrow> Token list \<Rightarrow> nat \<Rightarrow> (Expression \<times> nat) result" where
  "parseFunctionCall_body self isLoneCall ts i =
     and_then (expect Identifier ''Expected function name'' ts i) (\<lambda>(f_name, i1).
     and_then (expect OParen ''Function call must have open paren'' ts i1) (\<lambda>(_, i2).
     and_then (peek ts i2) (\<lambda>param.
     and_then (r_parseFunctionCall_loop self ts i2 param []) (\<lambda>(params, i3).
     and_then (expect CParen ''Expected closing paren to end function call'' ts i3) (\<lambda>(_, i4).
     and_then
       (if isLoneCall then
          and_then (expect Semicolon ''Expected semicolon to end statement'' ts i4)
            (\<lambda>(_, i5). Ok i5)
        else Ok i4)
       (\<lambda>i6. Ok (FunctionCall (tvalue f_name) params, i6)))))))"

definition parseFunctionCall_loop_body ::
  "expr_parsers \<Rightarrow> Token list \<Rightarrow> nat \<Rightarrow> Token \<Rightarrow> Expression list
   \<Rightarrow> (Expression list \<times> nat) result" where
  "parseFunctionCall_loop_body self ts i param params =
     (if ttype param \<noteq> CParen then
        and_then (r_parseAdditiveExpression self ts i) (\<lambda>(e, i1).
        and_then (peek ts i1) (\<lambda>tk.
        and_then (if ttype tk = Comma then and_then (eat ts i1) (\<lambda>(_, i2). Ok i2) else Ok i1)
          (\<lambda>i3.
        and_then (peek ts i3) (\<lambda>param1.
        r_parseFunctionCall_loop self ts i3 param1 (params @ [e])))))
      else Ok (params, i))"

definition parseBooleanExpression_body ::
  "expr_parsers \<Rightarrow> Token list \<Rightarrow> nat \<Rightarrow> (Expression \<times> nat) result" where
  "parseBooleanExpression_body self ts i =
     and_then (r_parseAdditiveExpression self ts i) (\<lambda>(left, i1).
     r_parseBooleanExpression_loop self ts i1 left)"

definition parseBooleanExpression_loop_body ::
  "expr_parsers \<Rightarrow> Token list \<Rightarrow> nat \<Rightarrow> Expression \<Rightarrow> (Expression \<times> nat) result" where
  "parseBooleanExpression_loop_body self ts i left =
     and_then (peek ts i) (\<lambda>tk.
       if ttype tk = EqualsEquals \<or> ttype tk = NotEquals then
         and_then (eat ts i) (\<lambda>(op, i1).
         and_then (r_parseAdditiveExpression self ts i1) (\<lambda>(right, i2).
         r_parseBooleanExpression_loop self ts i2 (BinaryExpression left (tvalue op) right)))
       else Ok (left, i))"

definition parseAdditiveExpression_body ::
  "expr_parsers \<Rightarrow> Token list \<Rightarrow> nat \<Rightarrow> (Expression \<times> nat) result" where
  "parseAdditiveExpression_body self ts i =
     and_then (r_parseMultiplicativeExpression self ts i) (\<lambda>(left, i1).
     r_parseAdditiveExpression_loop self ts i1 left)"

definition parseAdditiveExpression_loop_body ::
  "expr_parsers \<Rightarrow> Token list \<Rightarrow> nat \<Rightarrow> Expression \<Rightarrow> (Expression \<times> nat) result" where
  "parseAdditiveExpression_loop_body self ts i left =
     and_then (peek ts i) (\<lambda>tk.
       if tvalue tk = ''+'' \<or> tvalue tk = ''-'' then
         and_then (eat ts i) (\<lambda>(op, i1).
         and_then (r_parseMultiplicativeExpression self ts i1) (\<lambda>(right, i2).
         r_parseAdditiveExpression_loop self ts i2 (BinaryExpression left (tvalue op) right)))
       else Ok (left, i))"

definition parseMultiplicativeExpression_body ::
  "expr_parsers \<Rightarrow> Token list \<Rightarrow> nat \<Rightarrow> (Expression \<times> nat) result" where
  "parseMultiplicativeExpression_body self ts i =
     and_then (r_parseExponentialExpression self ts i) (\<lambda>(left, i1).
     r_parseMultiplicativeExpression_loop self ts i1 left)"

definition parseMultiplicativeExpression_loop_body ::
  "expr_parsers \<Rightarrow> Token list \<Rightarrow> nat \<Rightarrow> Expression \<Rightarrow> (Expression \<times> nat) result" where
  "parseMultiplicativeExpression_loop_body self ts i left =
     and_then (peek ts i) (\<lambda>tk.
       if isMultParseLevel tk then
         and_then (eat ts i) (\<lambda>(op, i1).
         and_then (r_parseExponentialExpression self ts i1) (\<lambda>(right, i2).
         r_parseMultiplicativeExpression_loop self ts i2
           (BinaryExpression left (tvalue op) right)))
       else Ok (left, i))"

definition parseExponentialExpression_body ::
  "expr_parsers \<Rightarrow> Token list \<Rightarrow> nat \<Rightarrow> (Expression \<times> nat) result" where
  "parseExponentialExpression_body self ts i =
     and_then (r_parseDotExpression self ts i) (\<lambda>(left, i1).
     r_parseExponentialExpression_loop self ts i1 left)"

definition parseExponentialExpression_loop_body ::
  "expr_parsers \<Rightarrow> Token list \<Rightarrow> nat \<Rightarrow> Expression \<Rightarrow> (Expression \<times> nat) result" where
  "parseExponentialExpression_loop_body self ts i left =
     and_then (peek ts i) (\<lambda>tk.
       if ttype tk = Exponent then
         and_then (eat ts i) (\<lambda>(op, i1).
         and_then (r_parseDotExpression self ts i1) (\<lambda>(right, i2).
         r_parseExponentialExpression_loop self ts i2 (BinaryExpression left (tvalue op) right)))
       else Ok (left, i))"

definition parseDotExpression_body ::
  "expr_parsers \<Rightarrow> Token list \<Rightarrow> nat \<Rightarrow> (Expression \<times> nat) result" where
  "parseDotExpression_body self ts i =
     and_then (r_parsePrimaryExpression self ts i) (\<lambda>(left, i1).
     r_parseDotExpression_loop self ts i1 left)"

definition parseDotExpression_loop_body ::
  "expr_parsers \<Rightarrow> Token list \<Rightarrow> nat \<Rightarrow> Expression \<Rightarrow> (Expression \<times> nat) result" where
  "parseDotExpression_loop_body self ts i left =
     and_then (peek ts i) (\<lambda>tk.
       if ttype tk = Dot then
         and_then (eat ts i) (\<lambda>(op, i1).
         and_then (r_parsePrimaryExpression self ts i1) (\<lambda>(right, i2).
         r_parseDotExpression_loop self ts i2 (BinaryExpression left (tvalue op) right)))
       else Ok (left, i))"

definition parsePrimaryExpression_body ::
  "expr_parsers \<Rightarrow> Token list \<Rightarrow> nat \<Rightarrow> (Expression \<times> nat) result" where
  "parsePrimaryExpression_body self ts i =
     and_then (peek ts i) (\<lambda>tk.
       if ttype tk = Identifier then
         and_then (peekNext ts i) (\<lambda>nx.
           if ttype nx = OParen then r_parseFunctionCall self False ts i
           else and_then (eat ts i) (\<lambda>(t, i1). Ok (Identifier_ast (tvalue t), i1)))
       else if ttype tk = negative_integer_literal then
         and_then (eat ts i) (\<lambda>(t, i1). Ok (NumericLiteral_int64 (atoll (tvalue t)), i1))
       else if ttype tk = integer_literal then
         and_then (eat ts i) (\<lambda>(t, i1).
           Ok (NumericLiteral_uint64 (atoll (tvalue t) mod 2 ^ 64), i1))
       else if ttype tk = float_literal then
         and_then (eat ts i) (\<lambda>(t, i1). Ok (NumericLiteral_double (tvalue t), i1))
       else if ttype tk = string_literal then
         and_then (eat ts i) (\<lambda>(t, i1). Ok (StringLiteral (tvalue t), i1))
       else if ttype tk = char_literal then
         and_then (eat ts i) (\<lambda>(t, i1). Ok (CharacterLiteral (tvalue t), i1))
       else if ttype tk = bool_literal then
         and_then (eat ts i) (\<lambda>(t, i1). Ok (BoolLiteral (tvalue t = ''true''), i1))
       else if ttype tk = OParen then
         and_then (eat ts i) (\<lambda>(_, i1).
         and_then (r_parseExpression self False ts i1) (\<lambda>(v, i2).
         and_then (expect CParen ''No closing paren!'' ts i2) (\<lambda>(_, i3). Ok (v, i3))))
       else Error ''Unexpected token found during parsing!'')"

primrec expr_parsers_at :: "nat \<Rightarrow> expr_parsers" where
  "expr_parsers_at 0 =
     \<lparr>r_parseExpression = (\<lambda>_ _ _. OutOfFuel),
      r_parseAssignmentExpression = (\<lambda>_ _ _. OutOfFuel),
      r_parseVariableDeclaration = (\<lambda>_ _. OutOfFuel),
      r_parseFunctionCall = (\<lambda>_ _ _. OutOfFuel),
      r_parseFunctionCall_loop = (\<lambda>_ _ _ _. OutOfFuel),
      r_parseBooleanExpression = (\<lambda>_ _. OutOfFuel),
      r_parseBooleanExpression_loop = (\<lambda>_ _ _. OutOfFuel),
      r_parseAdditiveExpression = (\<lambda>_ _. OutOfFuel),
      r_parseAdditiveExpression_loop = (\<lambda>_ _ _. OutOfFuel),
      r_parseMultiplicativeExpression = (\<lambda>_ _. OutOfFuel),
      r_parseMultiplicativeExpression_loop = (\<lambda>_ _ _. OutOfFuel),
      r_parseExponentialExpression = (\<lambda>_ _. OutOfFuel),
      r_parseExponentialExpression_loop = (\<lambda>_ _ _. OutOfFuel),
      r_parseDotExpression = (\<lambda>_ _. OutOfFuel),
      r_parseDotExpression_loop = (\<lambda>_ _ _. OutOfFuel),
      r_parsePrimaryExpression = (\<lambda>_ _. OutOfFuel)\<rparr>"
| "expr_parsers_at (Suc n) =
     \<lparr>r_parseExpression = parseExpression_body (expr_parsers_at n),
      r_parseAssignmentExpression = parseAssignmentExpression_body (expr_parsers_at n),
      r_parseVariableDeclaration = parseVariableDeclaration_body (expr_parsers_at n),
      r_parseFunctionCall = parseFunctionCall_body (expr_parsers_at n),
      r_parseFunctionCall_loop = parseFunctionCall_loop_body (expr_parsers_at n),
      r_parseBooleanExpression = parseBooleanExpression_body (expr_parsers_at n),
      r_parseBooleanExpression_loop = parseBooleanExpression_loop_body (expr_parsers_at n),
      r_parseAdditiveExpression = parseAdditiveExpression_body (expr_parsers_at n),
      r_parseAdditiveExpression_loop = parseAdditiveExpression_loop_body (expr_parsers_at n),
      r_parseMultiplicativeExpression = parseMultiplicativeExpression_body (expr_parsers_at n),
      r_parseMultiplicativeExpression_loop = parseMultiplicativeExpression_loop_body (expr_parsers_at n),
      r_parseExponentialExpression = parseExponentialExpression_body (expr_parsers_at n),
      r_parseExponentialExpression_loop = parseExponentialExpression_loop_body (expr_parsers_at n),
      r_parseDotExpression = parseDotExpression_body (expr_parsers_at n),
      r_parseDotExpression_loop = parseDotExpression_loop_body (expr_parsers_at n),
      r_parsePrimaryExpression = parsePrimaryExpression_body (expr_parsers_at n)\<rparr>"

declare expr_parsers_at.simps [simp del]

text \<open>The source functions, at call depth \<open>n\<close>.\<close>

definition parseExpression ::
  "bool \<Rightarrow> nat \<Rightarrow> Token list \<Rightarrow> nat \<Rightarrow> (Expression \<times> nat) result" where
  "parseExpression b n = r_parseExpression (expr_parsers_at n) b"

definition parseAssignmentExpression ::
  "bool \<Rightarrow> nat \<Rightarrow> Token list \<Rightarrow> nat \<Rightarrow> (Expression \<times> nat) result" where
  "parseAssignmentExpression b n = r_parseAssignmentExpression (expr_parsers_at n) b"

definition parseVariableDeclaration ::
  "nat \<Rightarrow> Token list \<Rightarrow> nat \<Rightarrow> (Expression \<times> nat) result" where
  "parseVariableDeclaration n = r_parseVariableDeclaration (expr_parsers_at n)"

definition parseFunctionCall ::
  "bool \<Rightarrow> nat \<Rightarrow> Token list \<Rightarrow> nat \<Rightarrow> (Expression \<times> nat) result" where
  "parseFunctionCall b n = r_parseFunctionCall (expr_parsers_at n) b"

definition parseFunctionCall_loop ::
  "nat \<Rightarrow> Token list \<Rightarrow> nat \<Rightarrow> Token \<Rightarrow> Expression list \<Rightarrow> (Expression list \<times> nat) result" where
  "parseFunctionCall_loop n = r_parseFunctionCall_loop (expr_parsers_at n)"

definition parseBooleanExpression ::
  "nat \<Rightarrow> Token list \<Rightarrow> nat \<Rightarrow> (Expression \<times> nat) result" where
  "parseBooleanExpression n = r_parseBooleanExpression (expr_parsers_at n)"

definition parseBooleanExpression_loop ::
  "nat \<Rightarrow> Token list \<Rightarrow> nat \<Rightarrow> Expression \<Rightarrow> (Expression \<times> nat) result" where
  "parseBooleanExpression_loop n = r_parseBooleanExpression_loop (expr_parsers_at n)"

definition parseAdditiveExpression ::
  "nat \<Rightarrow> Token list \<Rightarrow> nat \<Rightarrow> (Expression \<times> nat) result" where
  "parseAdditiveExpression n = r_parseAdditiveExpression (expr_parsers_at n)"

definition parseAdditiveExpression_loop ::
  "nat \<Rightarrow> Token list \<Rightarrow> nat \<Rightarrow> Expression \<Rightarrow> (Expression \<times> nat) result" where
  "parseAdditiveExpression_loop n = r_parseAdditiveExpression_loop (expr_parsers_at n)"

definition parseMultiplicativeExpression ::
  "nat \<Rightarrow> Token list \<Rightarrow> nat \<Rightarrow> (Expression \<times> nat) result" where
  "parseMultiplicativeExpression n = r_parseMultiplicativeExpression (expr_parsers_at n)"

definition parseMultiplicativeExpression_loop ::
  "nat \<Rightarrow> Token list \<Rightarrow> nat \<Rightarrow> Expression \<Rightarrow> (Expression \<times> nat) result" where
  "parseMultiplicativeExpression_loop n = r_parseMultiplicativeExpression_loop (expr_parsers_at n)"

definition parseExponentialExpression ::
  "nat \<Rightarrow> Token list \<Rightarrow> nat \<Rightarrow> (Expression \<times> nat) result" where
  "parseExponentialExpression n = r_parseExponentialExpression (expr_parsers_at n)"

definition parseExponentialExpression_loop ::
  "nat \<Rightarrow> Token list \<Rightarrow> nat \<Rightarrow> Expression \<Rightarrow> (Expression \<times> nat) result" where
  "parseExponentialExpression_loop n = r_parseExponentialExpression_loop (expr_parsers_at n)"

definition parseDotExpression ::
  "nat \<Rightarrow> Token list \<Rightarrow> nat \<Rightarrow> (Expression \<times> nat) result" where
  "parseDotExpression n = r_parseDotExpression (expr_parsers_at n)"

definition parseDotExpression_loop ::
  "nat \<Rightarrow> Token list \<Rightarrow> nat \<Rightarrow> Expression \<Rightarrow> (Expression \<times> nat) result" where
  "parseDotExpression_loop n = r_parseDotExpression_loop (expr_parsers_at n)"

definition parsePrimaryExpression ::
  "nat \<Rightarrow> Token list \<Rightarrow> nat \<Rightarrow> (Expression \<times> nat) result" where
  "parsePrimaryExpression n = r_parsePrimaryExpression (expr_parsers_at n)"

text \<open>One level of calls: each parser at depth \<open>Suc n\<close> is its body over the parsers at depth \<open>n\<close>.\<close>

lemmas expr_parser_defs =
  parseExpression_def parseAssignmentExpression_def parseVariableDeclaration_def
  parseFunctionCall_def parseFunctionCall_loop_def parseBooleanExpression_def
  parseBooleanExpression_loop_def parseAdditiveExpression_def parseAdditiveExpression_loop_def
  parseMultiplicativeExpression_def parseMultiplicativeExpression_loop_def parseExponentialExpression_def
  parseExponentialExpression_loop_def parseDotExpression_def parseDotExpression_loop_def
  parsePrimaryExpression_def

lemma expr_parsers_0:
  "parseExpression b 0 x0_0 x0_1 = OutOfFuel"
  "parseAssignmentExpression b 0 x1_0 x1_1 = OutOfFuel"
  "parseVariableDeclaration 0 x2_0 x2_1 = OutOfFuel"
  "parseFunctionCall b 0 x3_0 x3_1 = OutOfFuel"
  "parseFunctionCall_loop 0 x4_0 x4_1 x4_2 x4_3 = OutOfFuel"
  "parseBooleanExpression 0 x5_0 x5_1 = OutOfFuel"
  "parseBooleanExpression_loop 0 x6_0 x6_1 x6_2 = OutOfFuel"
  "parseAdditiveExpression 0 x7_0 x7_1 = OutOfFuel"
  "parseAdditiveExpression_loop 0 x8_0 x8_1 x8_2 = OutOfFuel"
  "parseMultiplicativeExpression 0 x9_0 x9_1 = OutOfFuel"
  "parseMultiplicativeExpression_loop 0 x10_0 x10_1 x10_2 = OutOfFuel"
  "parseExponentialExpression 0 x11_0 x11_1 = OutOfFuel"
  "parseExponentialExpression_loop 0 x12_0 x12_1 x12_2 = OutOfFuel"
  "parseDotExpression 0 x13_0 x13_1 = OutOfFuel"
  "parseDotExpression_loop 0 x14_0 x14_1 x14_2 = OutOfFuel"
  "parsePrimaryExpression 0 x15_0 x15_1 = OutOfFuel"
  by (simp_all add: expr_parser_defs expr_parsers_at.simps)

lemma expr_parsers_Suc:
  "parseExpression b (Suc n) = parseExpression_body (expr_parsers_at n) b"
  "parseAssignmentExpression b (Suc n) = parseAssignmentExpression_body (expr_parsers_at n) b"
  "parseVariableDeclaration (Suc n) = parseVariableDeclaration_body (expr_parsers_at n)"
  "parseFunctionCall b (Suc n) = parseFunctionCall_body (expr_parsers_at n) b"
  "parseFunctionCall_loop (Suc n) = parseFunctionCall_loop_body (expr_parsers_at n)"
  "parseBooleanExpression (Suc n) = parseBooleanExpression_body (expr_parsers_at n)"
  "parseBooleanExpression_loop (Suc n) = parseBooleanExpression_loop_body (expr_parsers_at n)"
  "parseAdditiveExpression (Suc n) = parseAdditiveExpression_body (expr_parsers_at n)"
  "parseAdditiveExpression_loop (Suc n) = parseAdditiveExpression_loop_body (expr_parsers_at n)"
  "parseMultiplicativeExpression (Suc n) = parseMultiplicativeExpression_body (expr_parsers_at n)"
  "parseMultiplicativeExpression_loop (Suc n) = parseMultiplicativeExpression_loop_body (expr_parsers_at n)"
  "parseExponentialExpression (Suc n) = parseExponentialExpression_body (expr_parsers_at n)"
  "parseExponentialExpression_loop (Suc n) = parseExponentialExpression_loop_body (expr_parsers_at n)"
  "parseDotExpression (Suc n) = parseDotExpression_body (expr_parsers_at n)"
  "parseDotExpression_loop (Suc n) = parseDotExpression_loop_body (expr_parsers_at n)"
  "parsePrimaryExpression (Suc n) = parsePrimaryExpression_body (expr_parsers_at n)"
  by (simp_all add: expr_parser_defs expr_parsers_at.simps)

lemma expr_parsers_numeral:
  "parseExpression b (numeral k) = parseExpression_body (expr_parsers_at (pred_numeral k)) b"
  "parseAssignmentExpression b (numeral k) = parseAssignmentExpression_body (expr_parsers_at (pred_numeral k)) b"
  "parseVariableDeclaration (numeral k) = parseVariableDeclaration_body (expr_parsers_at (pred_numeral k))"
  "parseFunctionCall b (numeral k) = parseFunctionCall_body (expr_parsers_at (pred_numeral k)) b"
  "parseFunctionCall_loop (numeral k) = parseFunctionCall_loop_body (expr_parsers_at (pred_numeral k))"
  "parseBooleanExpression (numeral k) = parseBooleanExpression_body (expr_parsers_at (pred_numeral k))"
  "parseBooleanExpression_loop (numeral k) = parseBooleanExpression_loop_body (expr_parsers_at (pred_numeral k))"
  "parseAdditiveExpression (numeral k) = parseAdditiveExpression_body (expr_parsers_at (pred_numeral k))"
  "parseAdditiveExpression_loop (numeral k) = parseAdditiveExpression_loop_body (expr_parsers_at (pred_numeral k))"
  "parseMultiplicativeExpression (numeral k) = parseMultiplicativeExpression_body (expr_parsers_at (pred_numeral k))"
  "parseMultiplicativeExpression_loop (numeral k) = parseMultiplicativeExpression_loop_body (expr_parsers_at (pred_numeral k))"
  "parseExponentialExpression (numeral k) = parseExponentialExpression_body (expr_parsers_at (pred_numeral k))"
  "parseExponentialExpression_loop (numeral k) = parseExponentialExpression_loop_body (expr_parsers_at (pred_numeral k))"
  "parseDotExpression (numeral k) = parseDotExpression_body (expr_parsers_at (pred_numeral k))"
  "parseDotExpression_loop (numeral k) = parseDotExpression_loop_body (expr_parsers_at (pred_numeral k))"
  "parsePrimaryExpression (numeral k) = parsePrimaryExpression_body (expr_parsers_at (pred_numeral k))"
  by (simp_all only: numeral_eq_Suc expr_parsers_Suc)

lemma expr_parsers_fold:
  "r_parseExpression (expr_parsers_at n) b = parseExpression b n"
  "r_parseAssignmentExpression (expr_parsers_at n) b = parseAssignmentExpression b n"
  "r_parseVariableDeclaration (expr_parsers_at n) = parseVariableDeclaration n"
  "r_parseFunctionCall (expr_parsers_at n) b = parseFunctionCall b n"
  "r_parseFunctionCall_loop (expr_parsers_at n) = parseFunctionCall_loop n"
  "r_parseBooleanExpression (expr_parsers_at n) = parseBooleanExpression n"
  "r_parseBooleanExpression_loop (expr_parsers_at n) = parseBooleanExpression_loop n"
  "r_parseAdditiveExpression (expr_parsers_at n) = parseAdditiveExpression n"
  "r_parseAdditiveExpression_loop (expr_parsers_at n) = parseAdditiveExpression_loop n"
  "r_parseMultiplicativeExpression (expr_parsers_at n) = parseMultiplicativeExpression n"
  "r_parseMultiplicativeExpression_loop (expr_parsers_at n) = parseMultiplicativeExpression_loop n"
  "r_parseExponentialExpression (expr_parsers_at n) = parseExponentialExpression n"
  "r_parseExponentialExpression_loop (expr_parsers_at n) = parseExponentialExpression_loop n"
  "r_parseDotExpression (expr_parsers_at n) = parseDotExpression n"
  "r_parseDotExpression_loop (expr_parsers_at n) = parseDotExpression_loop n"
  "r_parsePrimaryExpression (expr_parsers_at n) = parsePrimaryExpression n"
  by (simp_all add: expr_parser_defs)

lemmas expr_parser_bodies =
  parseExpression_body_def parseAssignmentExpression_body_def
  parseVariableDeclaration_body_def parseFunctionCall_body_def
  parseFunctionCall_loop_body_def parseBooleanExpression_body_def
  parseBooleanExpression_loop_body_def parseAdditiveExpression_body_def
  parseAdditiveExpression_loop_body_def parseMultiplicativeExpression_body_def
  parseMultiplicativeExpression_loop_body_def parseExponentialExpression_body_def
  parseExponentialExpression_loop_body_def parseDotExpression_body_def
  parseDotExpression_loop_body_def parsePrimaryExpression_body_def

lemma and_then_weak_cong: "m = m' \<Longrightarrow> and_then m f = and_then m' f"
  by simp

definition handleIdentifier :: "nat \<Rightarrow> Token list \<Rightarrow> nat \<Rightarrow> (Expression \<times> nat) result" where
  "handleIdentifier n ts i = parseAssignmentExpression True n ts i"

text \<open>
  The parameter loop of \<^verbatim>\<open>parseFunctionDeclaration\<close>. Every iteration eats at least the
  type and the name of a parameter, which bounds the loop by the tokens left.
\<close>

lemma and_then_cong [fundef_cong]:
  "m = m' \<Longrightarrow> (\<And>x. m' = Ok x \<Longrightarrow> f x = f' x) \<Longrightarrow> and_then m f = and_then m' f'"
  by (simp add: and_then_def split: result.splits)

lemma eat_Ok: "eat ts i = Ok (tk, j) \<Longrightarrow> i < length ts \<and> j = i + 1 \<and> tk = ts ! i"
  by (auto simp: eat_def split: if_splits)

lemma peek_Ok: "peek ts i = Ok tk \<Longrightarrow> i < length ts \<and> tk = ts ! i"
  by (auto simp: peek_def split: if_splits)

lemma expect_Ok: "expect ty err ts i = Ok (tk, j) \<Longrightarrow> i < length ts \<and> j = i + 1 \<and> tk = ts ! i \<and> ttype tk = ty"
  by (auto simp: expect_def eat_def split: if_splits)

lemma expect2_Ok:
  "expect2 ty1 ty2 err ts i = Ok (tk, j) \<Longrightarrow>
   i < length ts \<and> j = i + 1 \<and> tk = ts ! i \<and> (ttype tk = ty1 \<or> ttype tk = ty2)"
  by (auto simp: expect2_def eat_def split: if_splits)

lemma eatIfMutable_Ok:
  "eatIfMutable ts i = Ok (m, j) \<Longrightarrow>
   i < length ts \<and> m = (ttype (ts ! i) = mutable_T) \<and> j = (if m then i + 1 else i)"
  by (auto simp: eatIfMutable_def peek_def eat_def split: if_splits)

lemma eatIfRefOrPtr_Ok:
  "eatIfRefOrPtr ts i = Ok (isRef, isPtr, j) \<Longrightarrow>
   i < length ts \<and> isRef = (ttype (ts ! i) = Reference) \<and> isPtr = (ttype (ts ! i) = Pointer)
   \<and> j = (if isRef \<or> isPtr then i + 1 else i)"
  by (auto simp: eatIfRefOrPtr_def peek_def eat_def split: if_splits)

function parseFunctionDeclaration_params ::
  "string \<Rightarrow> Token list \<Rightarrow> nat \<Rightarrow> Parameter list \<Rightarrow> (Parameter list \<times> nat) result" where
  "parseFunctionDeclaration_params f_name ts i f_p_list =
     and_then (peek ts i) (\<lambda>tk.
       if ttype tk = ClassType \<or> ttype tk = PrimitiveType \<or> ttype tk = mutable_T then
         and_then (eatIfMutable ts i) (\<lambda>(isMutable, i1).
         and_then (eat ts i1) (\<lambda>(p_type, i2).
         and_then (eatIfRefOrPtr ts i2) (\<lambda>(isRef, isPtr, i3).
         and_then (expect Identifier ''parameters must have a type and name'' ts i3)
           (\<lambda>(p_name, i4).
         and_then (peek ts i4) (\<lambda>maybe_comma.
         and_then
           (if ttype maybe_comma = Comma then and_then (eat ts i4) (\<lambda>(_, i5). Ok i5)
            else if ttype maybe_comma \<noteq> CParen
            then Error (''invalid parameter list for function '' @ f_name)
            else Ok i4)
           (\<lambda>i6.
         and_then (Parameter_ctor isMutable (tvalue p_type) isRef isPtr (tvalue p_name)) (\<lambda>p.
         parseFunctionDeclaration_params f_name ts i6 (f_p_list @ [p]))))))))
       else Ok (f_p_list, i))"
  by pat_completeness auto

termination
proof (relation "measure (\<lambda>(f_name, ts, i, f_p_list). length ts - i)", goal_cases)
  case 1
  show ?case by simp
next
  case (2 f_name ts i f_p_list tk x1 isMutable i1 x2 p_type i2 x3 isRef x4 isPtr i3 x5 p_name i4
      maybe_comma i6 p)
  from 2(3,4) have a: "i \<le> i1" by (auto dest!: eatIfMutable_Ok split: if_splits)
  from 2(5,6) have b: "i1 < length ts" "i2 = i1 + 1" by (auto dest!: eat_Ok)
  from 2(7,8,9) have c: "i2 \<le> i3" by (auto dest!: eatIfRefOrPtr_Ok split: if_splits)
  from 2(10,11) have d: "i4 = i3 + 1" by (auto dest!: expect_Ok)
  from 2(13) have e: "i4 \<le> i6"
    by (auto simp: and_then_def dest!: eat_Ok split: if_splits result.splits)
  from a b c d e show ?case by simp
qed

declare parseFunctionDeclaration_params.simps [simp del]

text \<open>
  The statement parsers, in the same way: \<open>stmt_parsers\<close> holds the parsers of one depth,
  and a body takes the parsers \<open>self\<close> of the depth below and the depth \<open>n\<close> at which it
  calls the expression parsers. \<open>Statement\<close> wraps a pointer to an expression node, so a
  statement is modelled as that node.
\<close>

record stmt_parsers =
  r_parseStatement :: "bool \<Rightarrow> Token list \<Rightarrow> nat \<Rightarrow> (Expression \<times> nat) result"
  r_parseIfStatement :: "Token list \<Rightarrow> nat \<Rightarrow> (Expression \<times> nat) result"
  r_parseIfStatement_loop ::
    "Token list \<Rightarrow> nat \<Rightarrow> Expression list \<Rightarrow> (Expression list \<times> nat) result"
  r_parseNameSpaceDeclaration :: "Token list \<Rightarrow> nat \<Rightarrow> (Expression \<times> nat) result"
  r_parseNameSpaceDeclaration_loop ::
    "Token list \<Rightarrow> nat \<Rightarrow> Expression list \<Rightarrow> (Expression list \<times> nat) result"
  r_parseClassDefinition :: "Token list \<Rightarrow> nat \<Rightarrow> (Expression \<times> nat) result"
  r_parseClassDefinition_loop ::
    "Token list \<Rightarrow> nat \<Rightarrow> FieldDeclaration list \<Rightarrow> MethodDeclaration list \<Rightarrow> AccessSpecifier \<Rightarrow> (FieldDeclaration list \<times> MethodDeclaration list \<times> nat) result"
  r_handleType :: "Token list \<Rightarrow> nat \<Rightarrow> (Expression \<times> nat) result"
  r_handleMutable :: "Token list \<Rightarrow> nat \<Rightarrow> (Expression \<times> nat) result"
  r_parseFunctionDeclaration :: "Token list \<Rightarrow> nat \<Rightarrow> (Expression \<times> nat) result"
  r_parseFunctionDeclaration_loop ::
    "Token list \<Rightarrow> nat \<Rightarrow> Expression list \<Rightarrow> (Expression list \<times> nat) result"
  r_parseReturnStatement :: "Token list \<Rightarrow> nat \<Rightarrow> (Expression \<times> nat) result"
  r_produceAST_loop ::
    "Token list \<Rightarrow> nat \<Rightarrow> Expression list \<Rightarrow> (Expression list \<times> nat) result"

definition parseStatement_body ::
  "stmt_parsers \<Rightarrow> nat \<Rightarrow> bool \<Rightarrow> Token list \<Rightarrow> nat \<Rightarrow> (Expression \<times> nat) result" where
  "parseStatement_body self n AllowDeclarations ts i =
     and_then (peek ts i) (\<lambda>tk.
       if ttype tk = if_T then r_parseIfStatement self ts i
       else if ttype tk = namespace_T then
         (if AllowDeclarations then r_parseNameSpaceDeclaration self ts i
          else Error ''cannot create namespace inside of if statement'')
       else if ttype tk = Identifier then handleIdentifier n ts i
       else if ttype tk = PrimitiveType \<or> ttype tk = ClassType then r_handleType self ts i
       else if ttype tk = mutable_T then r_handleMutable self ts i
       else if ttype tk = class_T then
         (if AllowDeclarations then r_parseClassDefinition self ts i
          else Error ''cannot create class inside of if statement'')
       else parseExpression True n ts i)"

definition parseIfStatement_body ::
  "stmt_parsers \<Rightarrow> nat \<Rightarrow> Token list \<Rightarrow> nat \<Rightarrow> (Expression \<times> nat) result" where
  "parseIfStatement_body self n ts i =
     and_then (eat ts i) (\<lambda>(_, i1).
     and_then (expect OParen ''expected opening paren to start if statement'' ts i1) (\<lambda>(_, i2).
     and_then (parseExpression False n ts i2) (\<lambda>(condition, i3).
       if NOT_VALID_IF_CONDITION condition then Error ''invalid if condition''
       else
         and_then (expect CParen ''expected closing paren after condition'' ts i3) (\<lambda>(_, i4).
         and_then (peek ts i4) (\<lambda>tk.
           if ttype tk = OCurlyBrace then
             and_then (eat ts i4) (\<lambda>(_, i5).
             and_then (r_parseIfStatement_loop self ts i5 []) (\<lambda>(stmts, i6).
             and_then (expect CCurlyBrace ''expected closing brace of if statement body'' ts i6)
               (\<lambda>(_, i7).
             Ok (IfStatement condition stmts, i7))))
           else
             and_then (r_parseStatement self False ts i4) (\<lambda>(stmt, i5).
             Ok (IfStatement condition [stmt], i5)))))))"

definition parseIfStatement_loop_body ::
  "stmt_parsers \<Rightarrow> nat \<Rightarrow> Token list \<Rightarrow> nat \<Rightarrow> Expression list
   \<Rightarrow> (Expression list \<times> nat) result" where
  "parseIfStatement_loop_body self n ts i stmts =
     and_then (peek ts i) (\<lambda>tk.
       if ttype tk \<noteq> CCurlyBrace then
         and_then (parseExpression True n ts i) (\<lambda>(e, i1).
         r_parseIfStatement_loop self ts i1 (stmts @ [e]))
       else Ok (stmts, i))"

definition parseNameSpaceDeclaration_body ::
  "stmt_parsers \<Rightarrow> nat \<Rightarrow> Token list \<Rightarrow> nat \<Rightarrow> (Expression \<times> nat) result" where
  "parseNameSpaceDeclaration_body self n ts i =
     and_then (eat ts i) (\<lambda>(_, i1).
     and_then (expect Identifier ''namespace must have a name'' ts i1) (\<lambda>(nsp_name, i2).
     and_then (expect OCurlyBrace ''expected obening bracket to namespace declaration'' ts i2)
       (\<lambda>(_, i3).
     and_then (r_parseNameSpaceDeclaration_loop self ts i3 []) (\<lambda>(stmtList, i4).
     and_then (expect CCurlyBrace ''expected closing bracket to end namespace declaration'' ts i4)
       (\<lambda>(_, i5).
     Ok (NameSpaceDeclaration (tvalue nsp_name) stmtList, i5))))))"

definition parseNameSpaceDeclaration_loop_body ::
  "stmt_parsers \<Rightarrow> nat \<Rightarrow> Token list \<Rightarrow> nat \<Rightarrow> Expression list
   \<Rightarrow> (Expression list \<times> nat) result" where
  "parseNameSpaceDeclaration_loop_body self n ts i stmtList =
     and_then (peek ts i) (\<lambda>tk.
       if ttype tk \<noteq> CCurlyBrace then
         and_then (r_parseStatement self True ts i) (\<lambda>(stmt, i1).
         r_parseNameSpaceDeclaration_loop self ts i1 (stmtList @ [stmt]))
       else Ok (stmtList, i))"

definition parseClassDefinition_body ::
  "stmt_parsers \<Rightarrow> nat \<Rightarrow> Token list \<Rightarrow> nat \<Rightarrow> (Expression \<times> nat) result" where
  "parseClassDefinition_body self n ts i =
     and_then (eat ts i) (\<lambda>(_, i1).
     and_then (expect ClassType ''Class type must follow class keyword'' ts i1) (\<lambda>(typetk, i2).
     and_then (expect OCurlyBrace ''expected opening bracket to start class definition'' ts i2)
       (\<lambda>(_, i3).
     and_then (r_parseClassDefinition_loop self ts i3 [] [] Public) (\<lambda>(flds, meths, i4).
     and_then (expect CCurlyBrace ''expected closing bracket to class definition'' ts i4)
       (\<lambda>(_, i5).
     and_then (TypeName_ctor (tvalue typetk) False False False) (\<lambda>ty.
     Ok (ClassDeclaration ty flds meths, i5)))))))"

definition parseClassDefinition_loop_body ::
  "stmt_parsers \<Rightarrow> nat \<Rightarrow> Token list \<Rightarrow> nat \<Rightarrow> FieldDeclaration list
   \<Rightarrow> MethodDeclaration list \<Rightarrow> AccessSpecifier
   \<Rightarrow> (FieldDeclaration list \<times> MethodDeclaration list \<times> nat) result" where
  "parseClassDefinition_loop_body self n ts i flds meths currentspec =
     and_then (peek ts i) (\<lambda>tk0.
       if ttype tk0 \<noteq> CCurlyBrace then
         and_then
           (if ttype tk0 = mutable_T then
              and_then (peekNext ts i) (\<lambda>tk. Ok (tk, 1, i, currentspec))
            else if isAccessSpecifier (ttype tk0) then
              and_then (eat ts i) (\<lambda>(_, i1).
              and_then (expect Colon ''expected colon after access specifier'' ts i1) (\<lambda>(_, i2).
              and_then (peek ts i2) (\<lambda>tk.
              Ok (tk, 0, i2,
                  if ttype tk0 = public_T then Public
                  else if ttype tk0 = protected_T then Protected
                  else Private))))
            else Ok (tk0, 0, i, currentspec))
           (\<lambda>(tk, idx0, i3, spec).
              if ttype tk \<noteq> ClassType \<and> ttype tk \<noteq> PrimitiveType
              then Error ''Inner class definition requires type name''
              else
                and_then (peekTo ts (i3 + 1 + idx0)) (\<lambda>tk2.
                and_then
                  (if isRefOrPtr tk2 then
                     and_then (peekTo ts (i3 + 1 + (idx0 + 1))) (\<lambda>_. Ok (idx0 + 1))
                   else Ok idx0)
                  (\<lambda>idx1.
                and_then (peekTo ts (i3 + 2 + idx1)) (\<lambda>tk3.
                  if ttype tk3 = OParen then
                    and_then (r_parseFunctionDeclaration self ts i3) (\<lambda>(func, i4).
                    r_parseClassDefinition_loop self ts i4 flds
                      (meths @ [MethodDeclaration func spec]) spec)
                  else
                    and_then (parseVariableDeclaration n ts i3) (\<lambda>(var, i4).
                    r_parseClassDefinition_loop self ts i4
                      (flds @ [FieldDeclaration var spec]) meths spec)))))
       else Ok (flds, meths, i))"

definition handleType_body ::
  "stmt_parsers \<Rightarrow> nat \<Rightarrow> Token list \<Rightarrow> nat \<Rightarrow> (Expression \<times> nat) result" where
  "handleType_body self n ts i =
     and_then (peekNext ts i) (\<lambda>tk0.
     and_then
       (if isRefOrPtr tk0 then and_then (peekTo ts (i + 2)) (\<lambda>tk. Ok (tk, 1))
        else Ok (tk0, 0))
       (\<lambda>(tk, idx0).
          if ttype tk \<noteq> Identifier then Error ''Identifier expected after type''
          else
            and_then (peekTo ts (i + 2 + idx0)) (\<lambda>tk2.
              if ttype tk2 = Equals then parseVariableDeclaration n ts i
              else r_parseFunctionDeclaration self ts i)))"

definition handleMutable_body ::
  "stmt_parsers \<Rightarrow> nat \<Rightarrow> Token list \<Rightarrow> nat \<Rightarrow> (Expression \<times> nat) result" where
  "handleMutable_body self n ts i =
     and_then (peekNext ts i) (\<lambda>tk.
       if ttype tk \<noteq> ClassType \<and> ttype tk \<noteq> PrimitiveType
       then Error (''expected type after '' @ [CHR 0x27] @ ''mutable'' @ [CHR 0x27] @ '' keyword'')
       else
         and_then (peekTo ts (i + 2)) (\<lambda>tk20.
         and_then
           (if isRefOrPtr tk20 then and_then (peekTo ts (i + 3)) (\<lambda>t. Ok (t, 1))
            else Ok (tk20, 0))
           (\<lambda>(tk2, idx0).
              if ttype tk2 = Equals then parseAssignmentExpression True n ts i
              else if ttype tk2 = Identifier then
                and_then (peekTo ts (i + 3 + idx0)) (\<lambda>tk3.
                  if ttype tk3 = Equals \<or> ttype tk3 = Semicolon
                  then parseVariableDeclaration n ts i
                  else r_parseFunctionDeclaration self ts i)
              else Error ''unkown token found'')))"

definition parseFunctionDeclaration_body ::
  "stmt_parsers \<Rightarrow> nat \<Rightarrow> Token list \<Rightarrow> nat \<Rightarrow> (Expression \<times> nat) result" where
  "parseFunctionDeclaration_body self n ts i =
     and_then (eatIfMutable ts i) (\<lambda>(isMutable, i1).
     and_then (expect2 ClassType PrimitiveType ''function must have return type'' ts i1)
       (\<lambda>(typetk, i2).
     and_then (eatIfRefOrPtr ts i2) (\<lambda>(isRef, isPtr, i3).
     and_then (TypeName_ctor (tvalue typetk) isMutable isRef isPtr) (\<lambda>f_rettype.
     and_then (expect Identifier ''function must have name'' ts i3) (\<lambda>(f_name, i4).
     and_then (expect OParen ''missing open paren to start parameter list'' ts i4) (\<lambda>(_, i5).
     and_then (parseFunctionDeclaration_params (tvalue f_name) ts i5 []) (\<lambda>(f_p_list, i6).
     and_then (expect CParen ''missing closing paren of parameter list'' ts i6) (\<lambda>(_, i7).
     and_then (expect OCurlyBrace ''missing opening bracket of function body'' ts i7)
       (\<lambda>(_, i8).
     and_then (r_parseFunctionDeclaration_loop self ts i8 []) (\<lambda>(f_body, i9).
     and_then (expect CCurlyBrace (''No matching closing bracket on function '' @ tvalue f_name)
                 ts i9)
       (\<lambda>(_, i10).
     Ok (FunctionDeclaration f_rettype (tvalue f_name) f_p_list f_body, i10))))))))))))"

definition parseFunctionDeclaration_loop_body ::
  "stmt_parsers \<Rightarrow> nat \<Rightarrow> Token list \<Rightarrow> nat \<Rightarrow> Expression list
   \<Rightarrow> (Expression list \<times> nat) result" where
  "parseFunctionDeclaration_loop_body self n ts i f_body =
     and_then (peek ts i) (\<lambda>tk.
       if ttype tk \<noteq> CCurlyBrace then
         (if tvalue tk = ''return'' then
            and_then (r_parseReturnStatement self ts i) (\<lambda>(stmt, i1).
            Ok (f_body @ [stmt], i1))
          else
            and_then (r_parseStatement self True ts i) (\<lambda>(stmt, i1).
            r_parseFunctionDeclaration_loop self ts i1 (f_body @ [stmt])))
       else Ok (f_body, i))"

definition parseReturnStatement_body ::
  "stmt_parsers \<Rightarrow> nat \<Rightarrow> Token list \<Rightarrow> nat \<Rightarrow> (Expression \<times> nat) result" where
  "parseReturnStatement_body self n ts i =
     and_then (expect return_T '''' ts i) (\<lambda>(_, i1).
     and_then (r_parseStatement self True ts i1) (\<lambda>(stmt, i2).
     Ok (ReturnStatement stmt, i2)))"

definition produceAST_loop_body ::
  "stmt_parsers \<Rightarrow> nat \<Rightarrow> Token list \<Rightarrow> nat \<Rightarrow> Expression list
   \<Rightarrow> (Expression list \<times> nat) result" where
  "produceAST_loop_body self n ts i body =
     and_then (not_eof ts i) (\<lambda>go.
       if go then
         and_then (r_parseStatement self True ts i) (\<lambda>(stmt, i1).
         r_produceAST_loop self ts i1 (body @ [stmt]))
       else Ok (body, i))"

primrec stmt_parsers_at :: "nat \<Rightarrow> stmt_parsers" where
  "stmt_parsers_at 0 =
     \<lparr>r_parseStatement = (\<lambda>_ _ _. OutOfFuel),
      r_parseIfStatement = (\<lambda>_ _. OutOfFuel),
      r_parseIfStatement_loop = (\<lambda>_ _ _. OutOfFuel),
      r_parseNameSpaceDeclaration = (\<lambda>_ _. OutOfFuel),
      r_parseNameSpaceDeclaration_loop = (\<lambda>_ _ _. OutOfFuel),
      r_parseClassDefinition = (\<lambda>_ _. OutOfFuel),
      r_parseClassDefinition_loop = (\<lambda>_ _ _ _ _. OutOfFuel),
      r_handleType = (\<lambda>_ _. OutOfFuel),
      r_handleMutable = (\<lambda>_ _. OutOfFuel),
      r_parseFunctionDeclaration = (\<lambda>_ _. OutOfFuel),
      r_parseFunctionDeclaration_loop = (\<lambda>_ _ _. OutOfFuel),
      r_parseReturnStatement = (\<lambda>_ _. OutOfFuel),
      r_produceAST_loop = (\<lambda>_ _ _. OutOfFuel)\<rparr>"
| "stmt_parsers_at (Suc n) =
     \<lparr>r_parseStatement = parseStatement_body (stmt_parsers_at n) n,
      r_parseIfStatement = parseIfStatement_body (stmt_parsers_at n) n,
      r_parseIfStatement_loop = parseIfStatement_loop_body (stmt_parsers_at n) n,
      r_parseNameSpaceDeclaration = parseNameSpaceDeclaration_body (stmt_parsers_at n) n,
      r_parseNameSpaceDeclaration_loop = parseNameSpaceDeclaration_loop_body (stmt_parsers_at n) n,
      r_parseClassDefinition = parseClassDefinition_body (stmt_parsers_at n) n,
      r_parseClassDefinition_loop = parseClassDefinition_loop_body (stmt_parsers_at n) n,
      r_handleType = handleType_body (stmt_parsers_at n) n,
      r_handleMutable = handleMutable_body (stmt_parsers_at n) n,
      r_parseFunctionDeclaration = parseFunctionDeclaration_body (stmt_parsers_at n) n,
      r_parseFunctionDeclaration_loop = parseFunctionDeclaration_loop_body (stmt_parsers_at n) n,
      r_parseReturnStatement = parseReturnStatement_body (stmt_parsers_at n) n,
      r_produceAST_loop = produceAST_loop_body (stmt_parsers_at n) n\<rparr>"

declare stmt_parsers_at.simps [simp del]

text \<open>The source functions, at call depth \<open>n\<close>.\<close>

definition parseStatement ::
  "bool \<Rightarrow> nat \<Rightarrow> Token list \<Rightarrow> nat \<Rightarrow> (Expression \<times> nat) result" where
  "parseStatement b n = r_parseStatement (stmt_parsers_at n) b"

definition parseIfStatement ::
  "nat \<Rightarrow> Token list \<Rightarrow> nat \<Rightarrow> (Expression \<times> nat) result" where
  "parseIfStatement n = r_parseIfStatement (stmt_parsers_at n)"

definition parseIfStatement_loop ::
  "nat \<Rightarrow> Token list \<Rightarrow> nat \<Rightarrow> Expression list \<Rightarrow> (Expression list \<times> nat) result" where
  "parseIfStatement_loop n = r_parseIfStatement_loop (stmt_parsers_at n)"

definition parseNameSpaceDeclaration ::
  "nat \<Rightarrow> Token list \<Rightarrow> nat \<Rightarrow> (Expression \<times> nat) result" where
  "parseNameSpaceDeclaration n = r_parseNameSpaceDeclaration (stmt_parsers_at n)"

definition parseNameSpaceDeclaration_loop ::
  "nat \<Rightarrow> Token list \<Rightarrow> nat \<Rightarrow> Expression list \<Rightarrow> (Expression list \<times> nat) result" where
  "parseNameSpaceDeclaration_loop n = r_parseNameSpaceDeclaration_loop (stmt_parsers_at n)"

definition parseClassDefinition ::
  "nat \<Rightarrow> Token list \<Rightarrow> nat \<Rightarrow> (Expression \<times> nat) result" where
  "parseClassDefinition n = r_parseClassDefinition (stmt_parsers_at n)"

definition parseClassDefinition_loop ::
  "nat \<Rightarrow> Token list \<Rightarrow> nat \<Rightarrow> FieldDeclaration list \<Rightarrow> MethodDeclaration list \<Rightarrow> AccessSpecifier \<Rightarrow> (FieldDeclaration list \<times> MethodDeclaration list \<times> nat) result" where
  "parseClassDefinition_loop n = r_parseClassDefinition_loop (stmt_parsers_at n)"

definition handleType ::
  "nat \<Rightarrow> Token list \<Rightarrow> nat \<Rightarrow> (Expression \<times> nat) result" where
  "handleType n = r_handleType (stmt_parsers_at n)"

definition handleMutable ::
  "nat \<Rightarrow> Token list \<Rightarrow> nat \<Rightarrow> (Expression \<times> nat) result" where
  "handleMutable n = r_handleMutable (stmt_parsers_at n)"

definition parseFunctionDeclaration ::
  "nat \<Rightarrow> Token list \<Rightarrow> nat \<Rightarrow> (Expression \<times> nat) result" where
  "parseFunctionDeclaration n = r_parseFunctionDeclaration (stmt_parsers_at n)"

definition parseFunctionDeclaration_loop ::
  "nat \<Rightarrow> Token list \<Rightarrow> nat \<Rightarrow> Expression list \<Rightarrow> (Expression list \<times> nat) result" where
  "parseFunctionDeclaration_loop n = r_parseFunctionDeclaration_loop (stmt_parsers_at n)"

definition parseReturnStatement ::
  "nat \<Rightarrow> Token list \<Rightarrow> nat \<Rightarrow> (Expression \<times> nat) result" where
  "parseReturnStatement n = r_parseReturnStatement (stmt_parsers_at n)"

definition produceAST_loop ::
  "nat \<Rightarrow> Token list \<Rightarrow> nat \<Rightarrow> Expression list \<Rightarrow> (Expression list \<times> nat) result" where
  "produceAST_loop n = r_produceAST_loop (stmt_parsers_at n)"

text \<open>One level of calls: each parser at depth \<open>Suc n\<close> is its body over the parsers at depth \<open>n\<close>.\<close>

lemmas stmt_parser_defs =
  parseStatement_def parseIfStatement_def parseIfStatement_loop_def
  parseNameSpaceDeclaration_def parseNameSpaceDeclaration_loop_def parseClassDefinition_def
  parseClassDefinition_loop_def handleType_def handleMutable_def
  parseFunctionDeclaration_def parseFunctionDeclaration_loop_def parseReturnStatement_def
  produceAST_loop_def

lemma stmt_parsers_0:
  "parseStatement b 0 x0_0 x0_1 = OutOfFuel"
  "parseIfStatement 0 x1_0 x1_1 = OutOfFuel"
  "parseIfStatement_loop 0 x2_0 x2_1 x2_2 = OutOfFuel"
  "parseNameSpaceDeclaration 0 x3_0 x3_1 = OutOfFuel"
  "parseNameSpaceDeclaration_loop 0 x4_0 x4_1 x4_2 = OutOfFuel"
  "parseClassDefinition 0 x5_0 x5_1 = OutOfFuel"
  "parseClassDefinition_loop 0 x6_0 x6_1 x6_2 x6_3 x6_4 = OutOfFuel"
  "handleType 0 x7_0 x7_1 = OutOfFuel"
  "handleMutable 0 x8_0 x8_1 = OutOfFuel"
  "parseFunctionDeclaration 0 x9_0 x9_1 = OutOfFuel"
  "parseFunctionDeclaration_loop 0 x10_0 x10_1 x10_2 = OutOfFuel"
  "parseReturnStatement 0 x11_0 x11_1 = OutOfFuel"
  "produceAST_loop 0 x12_0 x12_1 x12_2 = OutOfFuel"
  by (simp_all add: stmt_parser_defs stmt_parsers_at.simps)

lemma stmt_parsers_Suc:
  "parseStatement b (Suc n) = parseStatement_body (stmt_parsers_at n) n b"
  "parseIfStatement (Suc n) = parseIfStatement_body (stmt_parsers_at n) n"
  "parseIfStatement_loop (Suc n) = parseIfStatement_loop_body (stmt_parsers_at n) n"
  "parseNameSpaceDeclaration (Suc n) = parseNameSpaceDeclaration_body (stmt_parsers_at n) n"
  "parseNameSpaceDeclaration_loop (Suc n) = parseNameSpaceDeclaration_loop_body (stmt_parsers_at n) n"
  "parseClassDefinition (Suc n) = parseClassDefinition_body (stmt_parsers_at n) n"
  "parseClassDefinition_loop (Suc n) = parseClassDefinition_loop_body (stmt_parsers_at n) n"
  "handleType (Suc n) = handleType_body (stmt_parsers_at n) n"
  "handleMutable (Suc n) = handleMutable_body (stmt_parsers_at n) n"
  "parseFunctionDeclaration (Suc n) = parseFunctionDeclaration_body (stmt_parsers_at n) n"
  "parseFunctionDeclaration_loop (Suc n) = parseFunctionDeclaration_loop_body (stmt_parsers_at n) n"
  "parseReturnStatement (Suc n) = parseReturnStatement_body (stmt_parsers_at n) n"
  "produceAST_loop (Suc n) = produceAST_loop_body (stmt_parsers_at n) n"
  by (simp_all add: stmt_parser_defs stmt_parsers_at.simps)

lemma stmt_parsers_numeral:
  "parseStatement b (numeral k) = parseStatement_body (stmt_parsers_at (pred_numeral k)) (pred_numeral k) b"
  "parseIfStatement (numeral k) = parseIfStatement_body (stmt_parsers_at (pred_numeral k)) (pred_numeral k)"
  "parseIfStatement_loop (numeral k) = parseIfStatement_loop_body (stmt_parsers_at (pred_numeral k)) (pred_numeral k)"
  "parseNameSpaceDeclaration (numeral k) = parseNameSpaceDeclaration_body (stmt_parsers_at (pred_numeral k)) (pred_numeral k)"
  "parseNameSpaceDeclaration_loop (numeral k) = parseNameSpaceDeclaration_loop_body (stmt_parsers_at (pred_numeral k)) (pred_numeral k)"
  "parseClassDefinition (numeral k) = parseClassDefinition_body (stmt_parsers_at (pred_numeral k)) (pred_numeral k)"
  "parseClassDefinition_loop (numeral k) = parseClassDefinition_loop_body (stmt_parsers_at (pred_numeral k)) (pred_numeral k)"
  "handleType (numeral k) = handleType_body (stmt_parsers_at (pred_numeral k)) (pred_numeral k)"
  "handleMutable (numeral k) = handleMutable_body (stmt_parsers_at (pred_numeral k)) (pred_numeral k)"
  "parseFunctionDeclaration (numeral k) = parseFunctionDeclaration_body (stmt_parsers_at (pred_numeral k)) (pred_numeral k)"
  "parseFunctionDeclaration_loop (numeral k) = parseFunctionDeclaration_loop_body (stmt_parsers_at (pred_numeral k)) (pred_numeral k)"
  "parseReturnStatement (numeral k) = parseReturnStatement_body (stmt_parsers_at (pred_numeral k)) (pred_numeral k)"
  "produceAST_loop (numeral k) = produceAST_loop_body (stmt_parsers_at (pred_numeral k)) (pred_numeral k)"
  by (simp_all only: numeral_eq_Suc stmt_parsers_Suc)

lemma stmt_parsers_fold:
  "r_parseStatement (stmt_parsers_at n) b = parseStatement b n"
  "r_parseIfStatement (stmt_parsers_at n) = parseIfStatement n"
  "r_parseIfStatement_loop (stmt_parsers_at n) = parseIfStatement_loop n"
  "r_parseNameSpaceDeclaration (stmt_parsers_at n) = parseNameSpaceDeclaration n"
  "r_parseNameSpaceDeclaration_loop (stmt_parsers_at n) = parseNameSpaceDeclaration_loop n"
  "r_parseClassDefinition (stmt_parsers_at n) = parseClassDefinition n"
  "r_parseClassDefinition_loop (stmt_parsers_at n) = parseClassDefinition_loop n"
  "r_handleType (stmt_parsers_at n) = handleType n"
  "r_handleMutable (stmt_parsers_at n) = handleMutable n"
  "r_parseFunctionDeclaration (stmt_parsers_at n) = parseFunctionDeclaration n"
  "r_parseFunctionDeclaration_loop (stmt_parsers_at n) = parseFunctionDeclaration_loop n"
  "r_parseReturnStatement (stmt_parsers_at n) = parseReturnStatement n"
  "r_produceAST_loop (stmt_parsers_at n) = produceAST_loop n"
  by (simp_all add: stmt_parser_defs)

lemmas stmt_parser_bodies =
  parseStatement_body_def parseIfStatement_body_def
  parseIfStatement_loop_body_def parseNameSpaceDeclaration_body_def
  parseNameSpaceDeclaration_loop_body_def parseClassDefinition_body_def
  parseClassDefinition_loop_body_def handleType_body_def
  handleMutable_body_def parseFunctionDeclaration_body_def
  parseFunctionDeclaration_loop_body_def parseReturnStatement_body_def
  produceAST_loop_body_def

text \<open>
  \<^verbatim>\<open>Parser p { tokens }; p.produceAST()\<close>: the statements of the program, parsed from the
  first token on.
\<close>

definition produceAST :: "nat \<Rightarrow> Token list \<Rightarrow> Expression list result" where
  "produceAST n ts = and_then (produceAST_loop n ts 0 []) (\<lambda>(body, _). Ok body)"

lemmas parser_prims = peek_def eat_def peekNext_def peekTo_def expect_def expect2_def
  eatIfRefOrPtr_def eatIfMutable_def TypeName_ctor_def Parameter_ctor_def not_eof_def
  isMultParseLevel_def isRefOrPtr_def isAccessSpecifier_def NOT_VALID_IF_CONDITION_def
  handleIdentifier_def produceAST_def atoll_def is_digit_def

lemmas parser_eval = expr_parsers_0 expr_parsers_numeral expr_parsers_fold expr_parser_bodies
  stmt_parsers_0 stmt_parsers_numeral stmt_parsers_fold stmt_parser_bodies
  parseFunctionDeclaration_params.simps parser_prims

section \<open>Predicates used in the statements\<close>

text \<open>
  The characters for which the \<^verbatim>\<open>switch\<close> of \<^verbatim>\<open>tokenize\<close> reaches the last statement of
  its \<^verbatim>\<open>default\<close> branch: not white space, not one of the \<^verbatim>\<open>case\<close> labels, not a digit
  and not a letter.
\<close>

definition unrecognized :: "char \<Rightarrow> bool" where
  "unrecognized c =
     (c \<notin> set ('';,(){}<>+~-*/%:&|=!.'' @ [CHR 0x22, CHR 0x27, CHR '' '', CHR 0x09, CHR 0x0A, CHR 0x0D])
      \<and> \<not> ((48::nat) \<le> of_char c \<and> of_char c \<le> (57::nat))
      \<and> toupper c = tolower c)"

text \<open>The loop stands at a character that the \<^verbatim>\<open>switch\<close> does not recognize.\<close>

definition at_unrecognized :: "Lexer \<Rightarrow> bool" where
  "at_unrecognized s = (idx s < LENGTH s \<and> unrecognized (cur s))"

text \<open>The token list ends with \<^verbatim>\<open>EOF_\<close> and has no other token of that kind.\<close>

definition ends_with_EOF :: "Token list \<Rightarrow> bool" where
  "ends_with_EOF ts =
     (ts \<noteq> [] \<and> ttype (last ts) = EOF_T \<and> list_all (\<lambda>t. ttype t \<noteq> EOF_T) (butlast ts))"

text \<open>
  The loop stands at a double quote, which opens a string literal; the characters of the
  source between that quote and the next double quote (or the end of the source); a literal
  with a raw newline or carriage return among them; and a literal that no double quote
  closes.
\<close>

definition opens_string :: "Lexer \<Rightarrow> bool" where
  "opens_string s = (idx s < LENGTH s \<and> cur s = CHR 0x22)"

definition literal_body :: "string \<Rightarrow> nat \<Rightarrow> string" where
  "literal_body src p = takeWhile (\<lambda>c. c \<noteq> CHR 0x22) (drop (Suc p) src)"

definition line_break_in_literal :: "Lexer \<Rightarrow> bool" where
  "line_break_in_literal s =
     (opens_string s \<and> (CHR 0x0A \<in> set (literal_body (srctext s) (idx s))
                        \<or> CHR 0x0D \<in> set (literal_body (srctext s) (idx s))))"

definition unterminated_literal :: "Lexer \<Rightarrow> bool" where
  "unterminated_literal s =
     (opens_string s \<and> CHR 0x22 \<notin> set (drop (Suc (idx s)) (srctext s)))"

text \<open>The initial value of \<^verbatim>\<open>num\<close> in \<^verbatim>\<open>buildNumber\<close>.\<close>

definition sign_of :: "bool \<Rightarrow> string" where
  "sign_of isNegative = (if isNegative then ''-'' else '''')"









definition core_eq :: "Lexer \<Rightarrow> Lexer \<Rightarrow> bool" where
  "core_eq s t = (srctext t = srctext s \<and> idx t = idx s \<and> LENGTH t = LENGTH s)"

text \<open>
  Two runs of the lexer on the same source with different contents of
  \<^verbatim>\<open>user_defined_classnames\<close>: kinds agree up to \<^verbatim>\<open>Identifier\<close> against \<^verbatim>\<open>ClassType\<close>.
\<close>

definition same_kind :: "TokenType \<Rightarrow> TokenType \<Rightarrow> bool" where
  "same_kind a b = (a = b \<or> ((a = Identifier \<or> a = ClassType) \<and> (b = Identifier \<or> b = ClassType)))"

definition same_token :: "Token \<Rightarrow> Token \<Rightarrow> bool" where
  "same_token a b = (tvalue a = tvalue b \<and> same_kind (ttype a) (ttype b))"

definition same_outcome :: "string + Token list \<Rightarrow> string + Token list \<Rightarrow> bool" where
  "same_outcome r r' =
     (case (r, r') of
        (Inl e, Inl e') \<Rightarrow> e = e'
      | (Inr ts, Inr ts') \<Rightarrow> list_all2 same_token ts ts'
      | _ \<Rightarrow> False)"

definition lex_sim :: "Lexer \<Rightarrow> Lexer \<Rightarrow> bool" where
  "lex_sim s t = (core_eq s t \<and> same_kind (lastType s) (lastType t)
                  \<and> list_all2 same_token (tokens s) (tokens t))"

definition sim_result :: "Lexer \<Rightarrow> Lexer \<Rightarrow> scan_result \<Rightarrow> scan_result \<Rightarrow> bool" where
  "sim_result s t r r' =
     (case r of
        Continue s1 \<Rightarrow>
          (\<exists>t1 N. r' = Continue t1 \<and> lex_sim s1 t1
             \<and> user_defined_classnames s1 = user_defined_classnames s \<union> N
             \<and> user_defined_classnames t1 = user_defined_classnames t \<union> N)
      | Return a \<Rightarrow> r' = Return a
      | Throw e \<Rightarrow> r' = Throw e)"

text \<open>
  Where a variable declaration that starts at token \<open>i\<close> has its \<^verbatim>\<open>mutable\<close> prefix, and the
  index of the token after the declared name.
\<close>

definition has_mutable :: "Token list \<Rightarrow> nat \<Rightarrow> bool" where
  "has_mutable ts i = (ttype (ts ! i) = mutable_T)"

definition after_name :: "Token list \<Rightarrow> nat \<Rightarrow> nat" where
  "after_name ts i =
     (let i1 = (if has_mutable ts i then i + 1 else i);
          i3 = (if isRefOrPtr (ts ! (i1 + 1)) then i1 + 2 else i1 + 1)
      in i3 + 1)"

text \<open>
  One parameter as the loop of \<^verbatim>\<open>parseFunctionDeclaration\<close> reads it: an optional
  \<^verbatim>\<open>mutable\<close>, the type token, an optional sigil and the name.
\<close>

definition read_parameter :: "Token list \<Rightarrow> nat \<Rightarrow> (Parameter \<times> nat) result" where
  "read_parameter ts i =
     and_then (eatIfMutable ts i) (\<lambda>(isMutable, i1).
     and_then (eat ts i1) (\<lambda>(p_type, i2).
     and_then (eatIfRefOrPtr ts i2) (\<lambda>(isRef, isPtr, i3).
     and_then (expect Identifier ''parameters must have a type and name'' ts i3)
       (\<lambda>(p_name, i4).
     and_then (Parameter_ctor isMutable (tvalue p_type) isRef isPtr (tvalue p_name)) (\<lambda>p.
     Ok (p, i4))))))"

text \<open>The test of the parameter loop on the next token.\<close>

definition starts_parameter :: "Token \<Rightarrow> bool" where
  "starts_parameter tk = (ttype tk = ClassType \<or> ttype tk = PrimitiveType \<or> ttype tk = mutable_T)"

text \<open>
  The parsers are indexed by the depth of calls they may use, and \<^verbatim>\<open>OutOfFuel\<close> is the
  result of a parse that needs more. \<open>extends r r'\<close> says that \<open>r'\<close> is what \<open>r\<close> becomes with
  more depth: the same result, unless \<open>r\<close> ran out. \<open>expr_ext\<close> and \<open>stmt_ext\<close> say this of every
  parser of two records.
\<close>

definition extends :: "'a result \<Rightarrow> 'a result \<Rightarrow> bool" where
  "extends r r' = (r = OutOfFuel \<or> r' = r)"

definition expr_ext :: "expr_parsers \<Rightarrow> expr_parsers \<Rightarrow> bool" where
  "expr_ext p q =
     ((\<forall>x0 x1 x2. extends (r_parseExpression p x0 x1 x2) (r_parseExpression q x0 x1 x2))
      \<and> (\<forall>x0 x1 x2. extends (r_parseAssignmentExpression p x0 x1 x2) (r_parseAssignmentExpression q x0 x1 x2))
      \<and> (\<forall>x0 x1. extends (r_parseVariableDeclaration p x0 x1) (r_parseVariableDeclaration q x0 x1))
      \<and> (\<forall>x0 x1 x2. extends (r_parseFunctionCall p x0 x1 x2) (r_parseFunctionCall q x0 x1 x2))
      \<and> (\<forall>x0 x1 x2 x3. extends (r_parseFunctionCall_loop p x0 x1 x2 x3) (r_parseFunctionCall_loop q x0 x1 x2 x3))
      \<and> (\<forall>x0 x1. extends (r_parseBooleanExpression p x0 x1) (r_parseBooleanExpression q x0 x1))
      \<and> (\<forall>x0 x1 x2. extends (r_parseBooleanExpression_loop p x0 x1 x2) (r_parseBooleanExpression_loop q x0 x1 x2))
      \<and> (\<forall>x0 x1. extends (r_parseAdditiveExpression p x0 x1) (r_parseAdditiveExpression q x0 x1))
      \<and> (\<forall>x0 x1 x2. extends (r_parseAdditiveExpression_loop p x0 x1 x2) (r_parseAdditiveExpression_loop q x0 x1 x2))
      \<and> (\<forall>x0 x1. extends (r_parseMultiplicativeExpression p x0 x1) (r_parseMultiplicativeExpression q x0 x1))
      \<and> (\<forall>x0 x1 x2. extends (r_parseMultiplicativeExpression_loop p x0 x1 x2) (r_parseMultiplicativeExpression_loop q x0 x1 x2))
      \<and> (\<forall>x0 x1. extends (r_parseExponentialExpression p x0 x1) (r_parseExponentialExpression q x0 x1))
      \<and> (\<forall>x0 x1 x2. extends (r_parseExponentialExpression_loop p x0 x1 x2) (r_parseExponentialExpression_loop q x0 x1 x2))
      \<and> (\<forall>x0 x1. extends (r_parseDotExpression p x0 x1) (r_parseDotExpression q x0 x1))
      \<and> (\<forall>x0 x1 x2. extends (r_parseDotExpression_loop p x0 x1 x2) (r_parseDotExpression_loop q x0 x1 x2))
      \<and> (\<forall>x0 x1. extends (r_parsePrimaryExpression p x0 x1) (r_parsePrimaryExpression q x0 x1)))"

definition stmt_ext :: "stmt_parsers \<Rightarrow> stmt_parsers \<Rightarrow> bool" where
  "stmt_ext p q =
     ((\<forall>x0 x1 x2. extends (r_parseStatement p x0 x1 x2) (r_parseStatement q x0 x1 x2))
      \<and> (\<forall>x0 x1. extends (r_parseIfStatement p x0 x1) (r_parseIfStatement q x0 x1))
      \<and> (\<forall>x0 x1 x2. extends (r_parseIfStatement_loop p x0 x1 x2) (r_parseIfStatement_loop q x0 x1 x2))
      \<and> (\<forall>x0 x1. extends (r_parseNameSpaceDeclaration p x0 x1) (r_parseNameSpaceDeclaration q x0 x1))
      \<and> (\<forall>x0 x1 x2. extends (r_parseNameSpaceDeclaration_loop p x0 x1 x2) (r_parseNameSpaceDeclaration_loop q x0 x1 x2))
      \<and> (\<forall>x0 x1. extends (r_parseClassDefinition p x0 x1) (r_parseClassDefinition q x0 x1))
      \<and> (\<forall>x0 x1 x2 x3 x4. extends (r_parseClassDefinition_loop p x0 x1 x2 x3 x4) (r_parseClassDefinition_loop q x0 x1 x2 x3 x4))
      \<and> (\<forall>x0 x1. extends (r_handleType p x0 x1) (r_handleType q x0 x1))
      \<and> (\<forall>x0 x1. extends (r_handleMutable p x0 x1) (r_handleMutable q x0 x1))
      \<and> (\<forall>x0 x1. extends (r_parseFunctionDeclaration p x0 x1) (r_parseFunctionDeclaration q x0 x1))
      \<and> (\<forall>x0 x1 x2. extends (r_parseFunctionDeclaration_loop p x0 x1 x2) (r_parseFunctionDeclaration_loop q x0 x1 x2))
      \<and> (\<forall>x0 x1. extends (r_parseReturnStatement p x0 x1) (r_parseReturnStatement q x0 x1))
      \<and> (\<forall>x0 x1 x2. extends (r_produceAST_loop p x0 x1 x2) (r_produceAST_loop q x0 x1 x2)))"

section \<open>Unfolding the loop of tokenize\<close>

lemma tokenize_loop_end:
  "\<not> idx s < LENGTH s \<Longrightarrow>
   tokenize_loop s = (Inr (tokens s @ [Token [] EOF_T]), user_defined_classnames s)"
  by (subst tokenize_loop.simps) simp

lemma tokenize_loop_skip:
  "idx s < LENGTH s \<Longrightarrow> isSkippable s \<Longrightarrow> tokenize_loop s = tokenize_loop (s\<lparr>idx := idx s + 1\<rparr>)"
  by (subst tokenize_loop.simps) simp

lemma tokenize_loop_Continue:
  "idx s < LENGTH s \<Longrightarrow> \<not> isSkippable s \<Longrightarrow> scan s = Continue s1 \<Longrightarrow>
   tokenize_loop s = tokenize_loop (s1\<lparr>idx := idx s1 + 1\<rparr>)"
  by (subst tokenize_loop.simps) simp

lemma tokenize_loop_Return:
  "idx s < LENGTH s \<Longrightarrow> \<not> isSkippable s \<Longrightarrow> scan s = Return ts \<Longrightarrow>
   tokenize_loop s = (Inr ts, user_defined_classnames s)"
  by (subst tokenize_loop.simps) simp

lemma tokenize_loop_Throw:
  "idx s < LENGTH s \<Longrightarrow> \<not> isSkippable s \<Longrightarrow> scan s = Throw e \<Longrightarrow>
   tokenize_loop s = (Inl e, user_defined_classnames s)"
  by (subst tokenize_loop.simps) simp

lemma scan_unrecognized:
  "unrecognized (cur s) \<Longrightarrow> \<not> isSkippable s \<and> scan s = Return []"
  by (simp add: unrecognized_def isSkippable_def scan_def Let_def isInt_def isAlpha_def)

lemma tokenize_loop_unrecognized:
  "idx s < LENGTH s \<Longrightarrow> unrecognized (cur s) \<Longrightarrow>
   tokenize_loop s = (Inr [], user_defined_classnames s)"
  using scan_unrecognized [of s] by (simp add: tokenize_loop_Return)

lemma tokenize_loop_EOF:
  "list_all (\<lambda>t. ttype t \<noteq> EOF_T) (tokens s) \<Longrightarrow> fst (tokenize_loop s) = Inr ts \<Longrightarrow>
   ts = [] \<or> ends_with_EOF ts"
proof (induction s rule: tokenize_loop.induct)
  case (1 s)
  show ?case
  proof (cases "idx s < LENGTH s")
    case False
    with 1(3,4) show ?thesis by (auto simp: tokenize_loop_end ends_with_EOF_def)
  next
    case True
    show ?thesis
    proof (cases "isSkippable s")
      case skip: True
      from 1(1) [OF True skip] 1(3,4) True skip show ?thesis
        by (simp add: tokenize_loop_skip)
    next
      case noskip: False
      show ?thesis
      proof (cases "scan s")
        case (Continue s1)
        from scan_frame [OF True Continue] 1(3)
        have "list_all (\<lambda>t. ttype t \<noteq> EOF_T) (tokens (s1\<lparr>idx := idx s1 + 1\<rparr>))"
          by (auto simp: lex_frame_def list_all_iff)
        from 1(2) [OF True noskip Continue this] 1(4) True noskip Continue show ?thesis
          by (simp add: tokenize_loop_Continue)
      next
        case (Return ts')
        with 1(4) True noskip scan_Return [OF Return] show ?thesis
          by (simp add: tokenize_loop_Return)
      next
        case (Throw e)
        with 1(4) True noskip show ?thesis by (simp add: tokenize_loop_Throw)
      qed
    qed
  qed
qed

section \<open>The states of the loop\<close>

lemma loop_states_end: "\<not> idx s < LENGTH s \<Longrightarrow> loop_states s = [s]"
  by (subst loop_states.simps) simp

lemma loop_states_skip:
  "idx s < LENGTH s \<Longrightarrow> isSkippable s \<Longrightarrow>
   loop_states s = s # loop_states (s\<lparr>idx := idx s + 1\<rparr>)"
  by (subst loop_states.simps) simp

lemma loop_states_Continue:
  "idx s < LENGTH s \<Longrightarrow> \<not> isSkippable s \<Longrightarrow> scan s = Continue s1 \<Longrightarrow>
   loop_states s = s # loop_states (s1\<lparr>idx := idx s1 + 1\<rparr>)"
  by (subst loop_states.simps) simp

lemma loop_states_Return:
  "idx s < LENGTH s \<Longrightarrow> \<not> isSkippable s \<Longrightarrow> scan s = Return ts \<Longrightarrow> loop_states s = [s]"
  by (subst loop_states.simps) simp

lemma loop_states_Throw:
  "idx s < LENGTH s \<Longrightarrow> \<not> isSkippable s \<Longrightarrow> scan s = Throw e \<Longrightarrow> loop_states s = [s]"
  by (subst loop_states.simps) simp

lemma loop_states_self: "s \<in> set (loop_states s)"
  by (subst loop_states.simps) simp

text \<open>
  A property that holds when the loop is entered and that every pass keeps holds in every
  state of the loop.
\<close>

lemma loop_states_invariant:
  assumes "t \<in> set (loop_states s)" "P s"
    and skip: "\<And>s. P s \<Longrightarrow> idx s < LENGTH s \<Longrightarrow> isSkippable s \<Longrightarrow> P (s\<lparr>idx := idx s + 1\<rparr>)"
    and pass: "\<And>s s1. P s \<Longrightarrow> idx s < LENGTH s \<Longrightarrow> \<not> isSkippable s \<Longrightarrow> scan s = Continue s1
                \<Longrightarrow> P (s1\<lparr>idx := idx s1 + 1\<rparr>)"
  shows "P t"
  using assms(1,2)
proof (induction s rule: loop_states.induct)
  case (1 s)
  show ?case
  proof (cases "idx s < LENGTH s")
    case False
    with 1(3,4) show ?thesis by (simp add: loop_states_end)
  next
    case True
    show ?thesis
    proof (cases "isSkippable s")
      case sk: True
      from 1(3) True sk have "t = s \<or> t \<in> set (loop_states (s\<lparr>idx := idx s + 1\<rparr>))"
        by (simp add: loop_states_skip)
      with 1(1) [OF True sk] skip [OF 1(4) True sk] 1(4) show ?thesis by auto
    next
      case nsk: False
      show ?thesis
      proof (cases "scan s")
        case (Continue s1)
        from 1(3) True nsk Continue
        have "t = s \<or> t \<in> set (loop_states (s1\<lparr>idx := idx s1 + 1\<rparr>))"
          by (simp add: loop_states_Continue)
        with 1(2) [OF True nsk Continue] pass [OF 1(4) True nsk Continue] 1(4)
        show ?thesis by auto
      next
        case (Return ts)
        with 1(3,4) True nsk show ?thesis by (simp add: loop_states_Return)
      next
        case (Throw e)
        with 1(3,4) True nsk show ?thesis by (simp add: loop_states_Throw)
      qed
    qed
  qed
qed

text \<open>The run from a state of the loop is the rest of the run.\<close>

lemma tokenize_loop_states:
  "t \<in> set (loop_states s) \<Longrightarrow> tokenize_loop s = tokenize_loop t"
proof (induction s rule: loop_states.induct)
  case (1 s)
  show ?case
  proof (cases "idx s < LENGTH s")
    case False
    with 1(3) show ?thesis by (simp add: loop_states_end)
  next
    case True
    show ?thesis
    proof (cases "isSkippable s")
      case sk: True
      from 1(3) True sk have "t = s \<or> t \<in> set (loop_states (s\<lparr>idx := idx s + 1\<rparr>))"
        by (simp add: loop_states_skip)
      with 1(1) [OF True sk] True sk show ?thesis
        by (auto simp: tokenize_loop_skip)
    next
      case nsk: False
      show ?thesis
      proof (cases "scan s")
        case (Continue s1)
        from 1(3) True nsk Continue
        have "t = s \<or> t \<in> set (loop_states (s1\<lparr>idx := idx s1 + 1\<rparr>))"
          by (simp add: loop_states_Continue)
        with 1(2) [OF True nsk Continue] True nsk Continue show ?thesis
          by (auto simp: tokenize_loop_Continue)
      next
        case (Return ts)
        with 1(3) True nsk show ?thesis by (simp add: loop_states_Return)
      next
        case (Throw e)
        with 1(3) True nsk show ?thesis by (simp add: loop_states_Throw)
      qed
    qed
  qed
qed

lemma loop_states_closed:
  "t \<in> set (loop_states s) \<Longrightarrow> set (loop_states t) \<subseteq> set (loop_states s)"
proof (induction s rule: loop_states.induct)
  case (1 s)
  show ?case
  proof (cases "idx s < LENGTH s")
    case False
    with 1(3) show ?thesis by (simp add: loop_states_end)
  next
    case True
    show ?thesis
    proof (cases "isSkippable s")
      case sk: True
      from 1(3) True sk have "t = s \<or> t \<in> set (loop_states (s\<lparr>idx := idx s + 1\<rparr>))"
        by (simp add: loop_states_skip)
      with 1(1) [OF True sk] True sk show ?thesis
        by (auto simp: loop_states_skip [of s])
    next
      case nsk: False
      show ?thesis
      proof (cases "scan s")
        case (Continue s1)
        from 1(3) True nsk Continue
        have "t = s \<or> t \<in> set (loop_states (s1\<lparr>idx := idx s1 + 1\<rparr>))"
          by (simp add: loop_states_Continue)
        with 1(2) [OF True nsk Continue] True nsk Continue show ?thesis
          by (auto simp: loop_states_Continue [of s])
      next
        case (Return ts)
        with 1(3) True nsk show ?thesis by (simp add: loop_states_Return)
      next
        case (Throw e)
        with 1(3) True nsk show ?thesis by (simp add: loop_states_Throw)
      qed
    qed
  qed
qed

lemma loop_states_next_skip:
  assumes "t \<in> set (loop_states s)" "idx t < LENGTH t" "isSkippable t"
  shows "t\<lparr>idx := idx t + 1\<rparr> \<in> set (loop_states s)"
proof -
  have "t\<lparr>idx := idx t + 1\<rparr> \<in> set (loop_states t)"
    using assms(2,3) loop_states_self [of "t\<lparr>idx := idx t + 1\<rparr>"]
    by (simp add: loop_states_skip [of t])
  with loop_states_closed [OF assms(1)] show ?thesis by auto
qed


text \<open>Every state of the loop has the source and \<^verbatim>\<open>LENGTH\<close> with which the loop was entered.\<close>

lemma loop_states_source:
  assumes "t \<in> set (loop_states s)"
  shows "srctext t = srctext s \<and> LENGTH t = LENGTH s"
proof -
  have "srctext t = srctext s \<and> LENGTH t = LENGTH s"
    using assms
  proof (rule loop_states_invariant [where P = "\<lambda>u. srctext u = srctext s \<and> LENGTH u = LENGTH s"])
    show "srctext s = srctext s \<and> LENGTH s = LENGTH s" by simp
  next
    fix u assume "srctext u = srctext s \<and> LENGTH u = LENGTH s"
    then show "srctext (u\<lparr>idx := idx u + 1\<rparr>) = srctext s \<and> LENGTH (u\<lparr>idx := idx u + 1\<rparr>) = LENGTH s"
      by simp
  next
    fix u u1 assume "srctext u = srctext s \<and> LENGTH u = LENGTH s" "idx u < LENGTH u"
      "scan u = Continue u1"
    with scan_frame [of u u1]
    show "srctext (u1\<lparr>idx := idx u1 + 1\<rparr>) = srctext s \<and> LENGTH (u1\<lparr>idx := idx u1 + 1\<rparr>) = LENGTH s"
      by (simp add: lex_frame_def)
  qed
  then show ?thesis .
qed

lemma tokenize_states_source:
  "t \<in> set (tokenize_states U src) \<Longrightarrow> srctext t = src \<and> LENGTH t = length src"
  unfolding tokenize_states_def by (drule loop_states_source) simp

lemma tokenize_tokenize_states:
  "t \<in> set (tokenize_states U src) \<Longrightarrow> tokenize U src = tokenize_loop t"
  unfolding tokenize_states_def tokenize_def by (rule tokenize_loop_states)



section \<open>The end of the token list\<close>

lemma scan_Return_unrecognized:
  "scan s = Return ts \<Longrightarrow> \<not> isSkippable s \<Longrightarrow> unrecognized (cur s)"
  by (auto simp: scan_def Let_def unrecognized_def isSkippable_def isInt_def isAlpha_def
      split: if_splits sum.splits)

lemma tokenize_loop_empty:
  "fst (tokenize_loop s) = Inr [] \<Longrightarrow> \<exists>t \<in> set (loop_states s). at_unrecognized t"
proof (induction s rule: tokenize_loop.induct)
  case (1 s)
  show ?case
  proof (cases "idx s < LENGTH s")
    case False
    with 1(3) show ?thesis by (simp add: tokenize_loop_end)
  next
    case True
    show ?thesis
    proof (cases "isSkippable s")
      case sk: True
      from 1(1) [OF True sk] 1(3) True sk show ?thesis
        by (auto simp: tokenize_loop_skip loop_states_skip [of s])
    next
      case nsk: False
      show ?thesis
      proof (cases "scan s")
        case (Continue s1)
        from 1(2) [OF True nsk Continue] 1(3) True nsk Continue show ?thesis
          by (auto simp: tokenize_loop_Continue loop_states_Continue [of s])
      next
        case (Return ts')
        from scan_Return_unrecognized [OF Return nsk] True have "at_unrecognized s"
          by (simp add: at_unrecognized_def)
        with loop_states_self [of s] show ?thesis by blast
      next
        case (Throw e)
        with 1(3) True nsk show ?thesis by (simp add: tokenize_loop_Throw)
      qed
    qed
  qed
qed

lemma tokenize_at_unrecognized:
  assumes "t \<in> set (tokenize_states U src)" "at_unrecognized t"
  shows "fst (tokenize U src) = Inr []"
  using tokenize_tokenize_states [OF assms(1)] assms(2)
  by (simp add: at_unrecognized_def tokenize_loop_unrecognized)

lemma at_unrecognized_source:
  assumes "t \<in> set (tokenize_states U src)" "at_unrecognized t"
  shows "\<exists>c \<in> set src. unrecognized c"
proof -
  from tokenize_states_source [OF assms(1)] assms(2)
  have "idx t < length src" "unrecognized (src ! idx t)"
    by (auto simp: at_unrecognized_def cur_def at_def)
  then show ?thesis by (intro bexI [of _ "src ! idx t"]) simp_all
qed

text \<open>
  C1, as the code has it. The claim says that every returned list ends with \<^verbatim>\<open>EOF_\<close>, also
  on an unrecognized character. The \<^verbatim>\<open>default\<close> branch of \<^verbatim>\<open>tokenize\<close> prints a message
  and executes \<^verbatim>\<open>return TokenList()\<close> there, so the list is empty and holds no \<^verbatim>\<open>EOF_\<close>.
  On the source \<^verbatim>\<open>x = @;\<close> the lexer returns the empty list.
\<close>

theorem tokenize_unrecognized_counterexample:
  "fst (tokenize {} ''x = @;'') = Inr [] \<and> \<not> ends_with_EOF []"
  by code_simp

text \<open>
  C1, amended: \<^verbatim>\<open>tokenize\<close> returns the empty list, without \<^verbatim>\<open>EOF_\<close>, in the runs in which
  its loop comes to stand at a character that the \<^verbatim>\<open>switch\<close> does not recognize, and in
  those only: in every other run that returns a list, the list ends with a token of kind
  \<^verbatim>\<open>EOF_\<close> and has no other token of that kind. In particular that is so for every source
  without an unrecognized character.
\<close>

theorem tokenize_EOF_or_empty:
  "((\<exists>t \<in> set (tokenize_states U src). at_unrecognized t) \<longrightarrow> fst (tokenize U src) = Inr [])
   \<and> (\<not> (\<exists>t \<in> set (tokenize_states U src). at_unrecognized t) \<and> fst (tokenize U src) = Inr ts
        \<longrightarrow> ends_with_EOF ts)
   \<and> ((\<forall>c \<in> set src. \<not> unrecognized c) \<and> fst (tokenize U src) = Inr ts \<longrightarrow> ends_with_EOF ts)"
proof -
  have e: "ts = [] \<or> ends_with_EOF ts" if "fst (tokenize U src) = Inr ts"
    using that unfolding tokenize_def by (intro tokenize_loop_EOF) simp_all
  have n: "\<exists>t \<in> set (tokenize_states U src). at_unrecognized t" if "fst (tokenize U src) = Inr []"
    using that unfolding tokenize_def tokenize_states_def by (rule tokenize_loop_empty)
  have A: "(\<exists>t \<in> set (tokenize_states U src). at_unrecognized t) \<longrightarrow> fst (tokenize U src) = Inr []"
    by (auto intro: tokenize_at_unrecognized)
  have B: "\<not> (\<exists>t \<in> set (tokenize_states U src). at_unrecognized t) \<and> fst (tokenize U src) = Inr ts
        \<longrightarrow> ends_with_EOF ts"
    using e n by blast
  have C: "(\<forall>c \<in> set src. \<not> unrecognized c) \<and> fst (tokenize U src) = Inr ts \<longrightarrow> ends_with_EOF ts"
    using B at_unrecognized_source [of _ U src] by blast
  from A B C show ?thesis by blast
qed

theorem tokenize_EOF_or_empty_witness:
  "fst (tokenize {} ''x = @;'') = Inr []
   \<and> fst (tokenize {} ''x = 1;'') =
     Inr [Token ''x'' Identifier, Token ''='' Equals, Token ''1'' integer_literal,
          Token '';'' Semicolon, Token [] EOF_T]
   \<and> ends_with_EOF [Token ''x'' Identifier, Token ''='' Equals, Token ''1'' integer_literal,
          Token '';'' Semicolon, Token [] EOF_T]"
proof -
  let ?ts = "[Token ''x'' Identifier, Token ''='' Equals, Token ''1'' integer_literal,
          Token '';'' Semicolon, Token [] EOF_T]"
  let ?s = "\<lparr>srctext = ''x = @;'', tokens = [Token ''x'' Identifier, Token ''='' Equals],
             idx = 4, LENGTH = 6, lastType = Equals, user_defined_classnames = {}\<rparr>"
  have m: "?s \<in> set (tokenize_states {} ''x = @;'')" by code_simp
  have u: "at_unrecognized ?s" by code_simp
  have h: "fst (tokenize {} ''x = 1;'') = Inr ?ts" by code_simp
  have c: "\<forall>c \<in> set ''x = 1;''. \<not> unrecognized c" by code_simp
  have n: "\<not> (\<exists>t \<in> set (tokenize_states {} ''x = 1;''). at_unrecognized t)" by code_simp
  from m u have x: "\<exists>t \<in> set (tokenize_states {} ''x = @;''). at_unrecognized t" by blast
  from tokenize_EOF_or_empty [of "{}" "''x = @;''" "[]", THEN conjunct1, THEN mp, OF x]
    tokenize_EOF_or_empty [of "{}" "''x = 1;''" ?ts, THEN conjunct2, THEN conjunct1, THEN mp,
      OF conjI [OF n h]]
    tokenize_EOF_or_empty [of "{}" "''x = 1;''" ?ts, THEN conjunct2, THEN conjunct2, THEN mp,
      OF conjI [OF c h]] h
  show ?thesis by simp
qed

section \<open>String and character literals\<close>

text \<open>
  C7: a well-formed string literal gives exactly one \<^verbatim>\<open>string_literal\<close> token, and the
  lexer goes on after the closing quote; in particular the two characters \<^verbatim>\<open>""\<close> give one
  empty token. The code does not do that for the empty literal: the branch of
  \<^verbatim>\<open>buildString\<close> for \<^verbatim>\<open>srctext[ i+1 ] == '"'\<close> pushes the empty token and returns
  without advancing \<^verbatim>\<open>i\<close>, so the \<^verbatim>\<open>++i\<close> of the loop lands on the closing quote, which
  opens a second literal. The source \<^verbatim>\<open>""\<close> gives two \<^verbatim>\<open>string_literal\<close> tokens.
\<close>

theorem empty_string_literal_twice:
  "fst (tokenize {} [CHR 0x22, CHR 0x22]) =
     Inr [Token [] string_literal, Token [] string_literal, Token [] EOF_T]"
  by code_simp

text \<open>
  C8: the text of a \<^verbatim>\<open>char_literal\<close> is the character after the quote and, when that is a
  backslash, the backslash followed by the next source character. The code appends
  \<^verbatim>\<open>srctext[ i ]\<close>, which is the backslash itself, and advances by one only: on the four
  characters \<^verbatim>\<open>'\n'\<close> the token text is two backslashes, the \<^verbatim>\<open>n\<close> is skipped, and the
  closing quote opens a second, empty \<^verbatim>\<open>char_literal\<close>.
\<close>

theorem escaped_char_literal_text:
  "fst (tokenize {} [CHR 0x27, CHR 0x5C, CHR ''n'', CHR 0x27]) =
     Inr [Token [CHR 0x5C, CHR 0x5C] char_literal, Token [] char_literal, Token [] EOF_T]"
  by code_simp

section \<open>Numbers\<close>

lemma isInt_is_digit: "isInt s = is_digit (cur s)"
  by (simp add: isInt_def is_digit_def)

lemma at_append_length: "at (pre @ x) (length pre) = (case x of [] \<Rightarrow> CHR 0x00 | c # _ \<Rightarrow> c)"
  by (cases x) (simp_all add: at_def)

lemma update_idx_same: "idx s = k \<Longrightarrow> s\<lparr>idx := k\<rparr> = s"
  by auto

lemma buildNumber_digits_run:
  assumes "srctext s = pre @ ds @ rest" "idx s = length pre" "LENGTH s = length (srctext s)"
    "\<forall>c \<in> set ds. is_digit c" "rest = [] \<or> \<not> is_digit (hd rest)"
  shows "buildNumber_digits s num = (s\<lparr>idx := length pre + length ds\<rparr>, num @ ds)"
  using assms
proof (induction ds arbitrary: s pre num)
  case Nil
  then have "\<not> (idx s < LENGTH s \<and> isInt s)"
    by (cases rest) (auto simp: isInt_is_digit cur_def at_append_length)
  then have "buildNumber_digits s num = (s, num)" by (rule buildNumber_digits_stay)
  with Nil(2) show ?case by (simp add: update_idx_same)
next
  case (Cons d ds)
  then have c: "idx s < LENGTH s \<and> isInt s" and cur: "cur s = d"
    by (auto simp: isInt_is_digit cur_def at_append_length)
  have "buildNumber_digits (s\<lparr>idx := idx s + 1\<rparr>) (num @ [d]) =
        ((s\<lparr>idx := idx s + 1\<rparr>)\<lparr>idx := length (pre @ [d]) + length ds\<rparr>, (num @ [d]) @ ds)"
    using Cons.prems by (intro Cons.IH) auto
  with c cur Cons.prems(2) show ?case
    by (subst buildNumber_digits.simps) simp
qed

text \<open>
  \<^verbatim>\<open>buildNumber\<close> at a run \<open>ds\<close> of digits followed by \<open>rest\<close>: an integer token when a
  character other than \<^verbatim>\<open>'.'\<close> follows, and otherwise a \<^verbatim>\<open>float_literal\<close> made of the
  digits, the character read at that place (\<^verbatim>\<open>'.'\<close>, or the terminating \<^verbatim>\<open>'\0'\<close> at the end
  of the source) and the digits after it.
\<close>

lemma buildNumber_at_digits:
  assumes "srctext s = pre @ ds @ rest" "idx s = length pre" "LENGTH s = length (srctext s)"
    "\<forall>c \<in> set ds. is_digit c" "rest = [] \<or> \<not> is_digit (hd rest)"
  shows "buildNumber neg s =
     (if rest \<noteq> [] \<and> hd rest \<noteq> CHR ''.''
      then push_back (s\<lparr>idx := length pre + length ds - 1\<rparr>) (sign_of neg @ ds)
             (if neg then negative_integer_literal else integer_literal)
      else push_back (s\<lparr>idx := length pre + length ds + length (takeWhile is_digit (tl rest))\<rparr>)
             (sign_of neg @ ds @ [if rest = [] then CHR 0x00 else CHR ''.'']
                @ takeWhile is_digit (tl rest))
             float_literal)"
proof -
  let ?s1 = "s\<lparr>idx := length pre + length ds\<rparr>"
  have d: "buildNumber_digits s (if neg then ''-'' else '''') = (?s1, sign_of neg @ ds)"
    using buildNumber_digits_run [OF assms] by (simp add: sign_of_def)
  have cur1: "cur ?s1 = (case rest of [] \<Rightarrow> CHR 0x00 | c # _ \<Rightarrow> c)"
    using assms(1) at_append_length [of "pre @ ds" rest] by (simp add: cur_def)
  show ?thesis
  proof (cases rest)
    case Nil
    have "\<not> (idx (?s1\<lparr>idx := idx ?s1 + 1\<rparr>) < LENGTH (?s1\<lparr>idx := idx ?s1 + 1\<rparr>) \<and> isInt (?s1\<lparr>idx := idx ?s1 + 1\<rparr>))"
      using assms Nil by simp
    from buildNumber_digits_stay [OF this] d cur1 Nil assms(1,3) show ?thesis
      by (simp add: buildNumber_def push_back_def)
  next
    case (Cons c rest')
    show ?thesis
    proof (cases "c = CHR ''.''")
      case False
      with d cur1 Cons assms(1,3) show ?thesis
        by (simp add: buildNumber_def push_back_def)
    next
      case True
      let ?fr = "takeWhile is_digit rest'"
      let ?s2 = "?s1\<lparr>idx := idx ?s1 + 1\<rparr>"
      have "buildNumber_digits ?s2 ((sign_of neg @ ds) @ [cur ?s1]) =
            (?s2\<lparr>idx := length (pre @ ds @ ''.'') + length ?fr\<rparr>, ((sign_of neg @ ds) @ [cur ?s1]) @ ?fr)"
      proof (rule buildNumber_digits_run [where rest = "dropWhile is_digit rest'"])
        show "srctext ?s2 = (pre @ ds @ ''.'') @ ?fr @ dropWhile is_digit rest'"
          using assms(1) Cons True by simp
        show "\<forall>c\<in>set ?fr. is_digit c" by (auto dest: set_takeWhileD)
        show "dropWhile is_digit rest' = [] \<or> \<not> is_digit (hd (dropWhile is_digit rest'))"
          using hd_dropWhile [of is_digit rest'] by auto
      qed (use assms in simp_all)
      with d cur1 Cons True assms(1,3) show ?thesis
        by (simp add: buildNumber_def push_back_def)
    qed
  qed
qed

lemma is_digit_not_punct:
  "is_digit c \<Longrightarrow>
   c \<notin> set '';,(){}<>+~-*/%:&|=!.'' \<and> c \<noteq> CHR 0x22 \<and> c \<noteq> CHR 0x27
   \<and> c \<noteq> CHR '' '' \<and> c \<noteq> CHR 0x09 \<and> c \<noteq> CHR 0x0A \<and> c \<noteq> CHR 0x0D"
  by (auto simp: is_digit_def)

lemma scan_digit:
  "is_digit (cur s) \<Longrightarrow> \<not> isSkippable s \<and> scan s = Continue (buildNumber False s)"
  using is_digit_not_punct [of "cur s"]
  by (simp add: scan_def Let_def isSkippable_def isInt_is_digit)


text \<open>
  C10: when the digits of a number run to the end of the source, the test
  \<^verbatim>\<open>i < LENGTH && srctext[ i ] != '.'\<close> of \<^verbatim>\<open>buildNumber\<close> fails and the literal is emitted as
  \<^verbatim>\<open>float_literal\<close> (its text is the digits and the \<^verbatim>\<open>'\0'\<close> read at the end), after which
  \<^verbatim>\<open>tokenize\<close> appends \<^verbatim>\<open>EOF_\<close> and returns; the same digits followed by a character that
  is neither a digit nor \<^verbatim>\<open>'.'\<close> give an \<^verbatim>\<open>integer_literal\<close>. The state \<open>s\<close> is any state of
  the loop standing at the first digit.
\<close>

theorem final_integer_is_float:
  "(srctext s = pre @ ds \<and> idx s = length pre \<and> LENGTH s = length (srctext s)
      \<and> ds \<noteq> [] \<and> (\<forall>d \<in> set ds. is_digit d)
    \<longrightarrow> tokenize_loop s =
          (Inr (tokens s @ [Token (ds @ [CHR 0x00]) float_literal, Token [] EOF_T]),
           user_defined_classnames s))
   \<and> (srctext s = pre @ ds @ c # rest \<and> idx s = length pre \<and> LENGTH s = length (srctext s)
      \<and> ds \<noteq> [] \<and> (\<forall>d \<in> set ds. is_digit d) \<and> \<not> is_digit c \<and> c \<noteq> CHR ''.''
    \<longrightarrow> scan s = Continue (push_back (s\<lparr>idx := length pre + length ds - 1\<rparr>) ds integer_literal))"
proof (intro conjI impI)
  assume a: "srctext s = pre @ ds \<and> idx s = length pre \<and> LENGTH s = length (srctext s)
      \<and> ds \<noteq> [] \<and> (\<forall>d \<in> set ds. is_digit d)"
  then have cur: "is_digit (cur s)"
    by (cases ds) (auto simp: cur_def at_append_length)
  from a have lt: "idx s < LENGTH s" by (cases ds) auto
  have b: "buildNumber False s =
           push_back (s\<lparr>idx := length pre + length ds\<rparr>) (ds @ [CHR 0x00]) float_literal"
    using a buildNumber_at_digits [of s pre ds "[]" False] by (simp add: sign_of_def)
  from scan_digit [OF cur] lt
  have "tokenize_loop s = tokenize_loop ((buildNumber False s)\<lparr>idx := idx (buildNumber False s) + 1\<rparr>)"
    by (intro tokenize_loop_Continue) auto
  also have "\<dots> = (Inr (tokens s @ [Token (ds @ [CHR 0x00]) float_literal, Token [] EOF_T]),
                   user_defined_classnames s)"
    using a by (subst tokenize_loop_end) (simp_all add: b push_back_def)
  finally show "tokenize_loop s =
          (Inr (tokens s @ [Token (ds @ [CHR 0x00]) float_literal, Token [] EOF_T]),
           user_defined_classnames s)" .
next
  assume a: "srctext s = pre @ ds @ c # rest \<and> idx s = length pre \<and> LENGTH s = length (srctext s)
      \<and> ds \<noteq> [] \<and> (\<forall>d \<in> set ds. is_digit d) \<and> \<not> is_digit c \<and> c \<noteq> CHR ''.''"
  then have cur: "is_digit (cur s)"
    by (cases ds) (auto simp: cur_def at_append_length)
  from a buildNumber_at_digits [of s pre ds "c # rest" False] scan_digit [OF cur]
  show "scan s = Continue (push_back (s\<lparr>idx := length pre + length ds - 1\<rparr>) ds integer_literal)"
    by (simp add: sign_of_def)
qed

theorem final_integer_is_float_witness:
  "tokenize {} ''x = 12'' =
     (Inr [Token ''x'' Identifier, Token ''='' Equals,
           Token [CHR ''1'', CHR ''2'', CHR 0x00] float_literal, Token [] EOF_T], {})
   \<and> fst (tokenize {} ''x = 12;'') =
     Inr [Token ''x'' Identifier, Token ''='' Equals,
           Token ''12'' integer_literal, Token '';'' Semicolon, Token [] EOF_T]"
proof -
  let ?s = "\<lparr>srctext = ''x = 12'', tokens = [Token ''x'' Identifier, Token ''='' Equals],
             idx = 4, LENGTH = 6, lastType = Equals, user_defined_classnames = {}\<rparr>"
  let ?t = "\<lparr>srctext = ''x = 12;'', tokens = [Token ''x'' Identifier, Token ''='' Equals],
             idx = 4, LENGTH = 7, lastType = Equals, user_defined_classnames = {}\<rparr>"
  have d: "\<forall>d \<in> set ''12''. is_digit d" by (simp add: is_digit_def)
  have nd: "\<not> is_digit (CHR '';'')" by (simp add: is_digit_def)
  have 1: "tokenize_loop ?s = (Inr (tokens ?s @ [Token (''12'' @ [CHR 0x00]) float_literal, Token [] EOF_T]),
           user_defined_classnames ?s)"
    using final_integer_is_float [of ?s "''x = ''" "''12''", THEN conjunct1] d by simp
  have 2: "scan ?t = Continue (push_back (?t\<lparr>idx := length ''x = '' + length ''12'' - 1\<rparr>) ''12'' integer_literal)"
    using final_integer_is_float [of ?t "''x = ''" "''12''" "CHR '';''" "[]", THEN conjunct2] d nd by simp
  have 3: "tokenize {} ''x = 12'' = tokenize_loop ?s" by code_simp
  have 4: "tokenize {} ''x = 12;'' = tokenize_loop ?t" by code_simp
  have 5: "\<not> isSkippable ?t" by code_simp
  have 6: "tokenize_loop ?t = tokenize_loop ((push_back (?t\<lparr>idx := length ''x = '' + length ''12'' - 1\<rparr>) ''12'' integer_literal)\<lparr>idx := idx (push_back (?t\<lparr>idx := length ''x = '' + length ''12'' - 1\<rparr>) ''12'' integer_literal) + 1\<rparr>)"
    using 2 5 by (intro tokenize_loop_Continue) simp_all
  have 7: "fst (tokenize_loop ((push_back (?t\<lparr>idx := length ''x = '' + length ''12'' - 1\<rparr>) ''12'' integer_literal)\<lparr>idx := idx (push_back (?t\<lparr>idx := length ''x = '' + length ''12'' - 1\<rparr>) ''12'' integer_literal) + 1\<rparr>)) = Inr [Token ''x'' Identifier, Token ''='' Equals,
           Token ''12'' integer_literal, Token '';'' Semicolon, Token [] EOF_T]"
    by code_simp
  from 1 3 4 6 7 show ?thesis by simp
qed



































text \<open>
  The second \<^verbatim>\<open>'-'\<close> of \<^verbatim>\<open>--\<close> is consumed with the first one as \<^verbatim>\<open>MinusMinus\<close>: the loop
  never stands at it, and no \<^verbatim>\<open>Minus\<close> token comes before the digits.
\<close>

lemma minus_minus_before_digits:
  "fst (tokenize {} ''a--3;'') =
     Inr [Token ''a'' Identifier, Token ''--'' MinusMinus, Token ''3'' integer_literal,
          Token '';'' Semicolon, Token [] EOF_T]
   \<and> map idx (tokenize_states {} ''a--3;'') = [0, 1, 3, 4, 5]"
  by code_simp

section \<open>Errors of the lexer\<close>

lemma buildString_loop_Inr_quote:
  "buildString_loop s str = Inr (s1, str1) \<Longrightarrow> \<not> (idx s1 < LENGTH s1 \<and> cur s1 \<noteq> CHR 0x22)"
proof (induction s str rule: buildString_loop.induct)
  case (1 s str)
  let ?c = "at (srctext s) (idx s + 1)"
  show ?case
  proof (cases "idx s + 1 < LENGTH s \<and> ?c \<noteq> CHR 0x22")
    case True
    with 1(2) have nl: "\<not> (?c = CHR 0x0A \<or> ?c = CHR 0x0D)"
      by (subst (asm) buildString_loop.simps) (auto split: if_splits)
    with True 1(2) have "buildString_loop (s\<lparr>idx := idx s + 1\<rparr>) (str @ [?c]) = Inr (s1, str1)"
      by (subst (asm) buildString_loop.simps) simp
    from 1(1) [OF True nl this] show ?thesis .
  next
    case False
    with 1(2) have "s1 = s\<lparr>idx := idx s + 1\<rparr>"
      by (subst (asm) buildString_loop.simps) auto
    with False show ?thesis by (auto simp: cur_def)
  qed
qed

lemma buildString_Inl:
  "buildString s = Inl e \<Longrightarrow> buildString_loop s [] = Inl e"
  by (auto simp: buildString_def split: if_splits sum.splits dest: buildString_loop_Inr_quote)

lemma scan_Throw:
  "scan s = Throw e \<Longrightarrow> cur s = CHR 0x22 \<and> buildString_loop s [] = Inl e"
  by (auto simp: scan_def Let_def split: if_splits sum.splits dest: buildString_Inl)

lemma buildString_loop_message:
  "buildString_loop s str = Inl e \<Longrightarrow> e = ''invalid string literal!''"
proof (induction s str rule: buildString_loop.induct)
  case (1 s str)
  let ?c = "at (srctext s) (idx s + 1)"
  from 1(2) have c: "idx s + 1 < LENGTH s \<and> ?c \<noteq> CHR 0x22"
    by (subst (asm) buildString_loop.simps) (auto split: if_splits)
  show ?case
  proof (cases "?c = CHR 0x0A \<or> ?c = CHR 0x0D")
    case True
    with c 1(2) show ?thesis
      by (subst (asm) buildString_loop.simps) (auto split: if_splits)
  next
    case False
    with c 1(2) have "buildString_loop (s\<lparr>idx := idx s + 1\<rparr>) (str @ [?c]) = Inl e"
      by (subst (asm) buildString_loop.simps) simp
    from 1(1) [OF c False this] show ?thesis .
  qed
qed

text \<open>
  The loop of \<^verbatim>\<open>buildString\<close> throws exactly when a newline or carriage return comes
  before the next double quote.
\<close>

lemma buildString_loop_throws:
  "LENGTH s = length (srctext s) \<Longrightarrow>
   (buildString_loop s str = Inl ''invalid string literal!'') =
   (CHR 0x0A \<in> set (literal_body (srctext s) (idx s))
    \<or> CHR 0x0D \<in> set (literal_body (srctext s) (idx s)))"
proof (induction s str rule: buildString_loop.induct)
  case (1 s str)
  let ?c = "at (srctext s) (idx s + 1)"
  show ?case
  proof (cases "idx s + 1 < LENGTH s \<and> ?c \<noteq> CHR 0x22")
    case c: True
    with 1(2) have at: "?c = srctext s ! (idx s + 1)" by (simp add: at_def)
    from c 1(2) have "drop (Suc (idx s)) (srctext s) =
        srctext s ! (idx s + 1) # drop (Suc (idx s + 1)) (srctext s)"
      by (simp add: Cons_nth_drop_Suc)
    with c at have body: "literal_body (srctext s) (idx s) = ?c # literal_body (srctext s) (idx s + 1)"
      by (simp add: literal_body_def)
    show ?thesis
    proof (cases "?c = CHR 0x0A \<or> ?c = CHR 0x0D")
      case True
      with c have "buildString_loop s str = Inl ''invalid string literal!''"
        by (subst buildString_loop.simps) simp
      with True body show ?thesis by auto
    next
      case False
      with c have "buildString_loop s str = buildString_loop (s\<lparr>idx := idx s + 1\<rparr>) (str @ [?c])"
        by (subst buildString_loop.simps) simp
      with 1(1) [OF c False] 1(2) False body show ?thesis by auto
    qed
  next
    case False
    then have "buildString_loop s str = Inr (s\<lparr>idx := idx s + 1\<rparr>, str)"
      by (subst buildString_loop.simps) auto
    moreover from False 1(2) have "literal_body (srctext s) (idx s) = []"
    proof (cases "idx s + 1 < length (srctext s)")
      case True
      with False 1(2) have "srctext s ! (idx s + 1) = CHR 0x22" by (simp add: at_def)
      moreover from True have "drop (Suc (idx s)) (srctext s) =
        srctext s ! (idx s + 1) # drop (Suc (idx s + 1)) (srctext s)"
        by (simp add: Cons_nth_drop_Suc)
      ultimately show ?thesis by (simp add: literal_body_def)
    next
      case False
      then show ?thesis by (simp add: literal_body_def)
    qed
    ultimately show ?thesis by simp
  qed
qed

lemma literal_body_empty:
  "at src (Suc p) = CHR 0x22 \<Longrightarrow> literal_body src p = []"
proof (cases "Suc p < length src")
  case True
  assume "at src (Suc p) = CHR 0x22"
  with True have "src ! Suc p = CHR 0x22" by (simp add: at_def)
  moreover from True have "drop (Suc p) src = src ! Suc p # drop (Suc (Suc p)) src"
    by (simp add: Cons_nth_drop_Suc)
  ultimately show ?thesis by (simp add: literal_body_def)
next
  case False
  then show ?thesis by (simp add: literal_body_def)
qed

text \<open>
  \<^verbatim>\<open>buildString\<close> throws in its loop only: the test after the loop never fires, since the
  loop ends at a double quote or at the end of the source.
\<close>

lemma buildString_throws:
  assumes "LENGTH s = length (srctext s)"
  shows "(buildString s = Inl ''invalid string literal!'') =
     (CHR 0x0A \<in> set (literal_body (srctext s) (idx s))
      \<or> CHR 0x0D \<in> set (literal_body (srctext s) (idx s)))"
proof (cases "idx s < LENGTH s \<and> at (srctext s) (idx s + 1) = CHR 0x22")
  case True
  then have "buildString s = Inr (push_back s [] string_literal)"
    by (simp add: buildString_def)
  with True literal_body_empty [of "srctext s" "idx s"] show ?thesis by simp
next
  case False
  have "(buildString s = Inl ''invalid string literal!'') =
        (buildString_loop s [] = Inl ''invalid string literal!'')"
    using False
    by (auto simp: buildString_def split: sum.splits dest: buildString_loop_Inr_quote)
  with buildString_loop_throws [OF assms, of "[]"] show ?thesis by simp
qed

lemma scan_opens_string:
  assumes "opens_string s" "LENGTH s = length (srctext s)"
  shows "\<not> isSkippable s"
    and "(scan s = Throw ''invalid string literal!'') = line_break_in_literal s"
proof -
  from assms(1) have c: "cur s = CHR 0x22" by (simp add: opens_string_def)
  then show "\<not> isSkippable s" by (simp add: isSkippable_def)
  from c have "scan s = (case buildString s of Inl e \<Rightarrow> Throw e | Inr s1 \<Rightarrow> Continue s1)"
    by (simp add: scan_def Let_def)
  then have "(scan s = Throw ''invalid string literal!'') =
             (buildString s = Inl ''invalid string literal!'')"
    by (auto split: sum.splits)
  with buildString_throws [OF assms(2)] assms(1)
  show "(scan s = Throw ''invalid string literal!'') = line_break_in_literal s"
    by (simp add: line_break_in_literal_def)
qed

lemma scan_Throw_message:
  "scan s = Throw e \<Longrightarrow> e = ''invalid string literal!''"
  using scan_Throw [of s e] buildString_loop_message [of s "[]" e] by simp

lemma tokenize_loop_throws:
  "fst (tokenize_loop s) = Inl e \<Longrightarrow>
   \<exists>t \<in> set (loop_states s). idx t < LENGTH t \<and> scan t = Throw e"
proof (induction s rule: tokenize_loop.induct)
  case (1 s)
  show ?case
  proof (cases "idx s < LENGTH s")
    case False
    with 1(3) show ?thesis by (simp add: tokenize_loop_end)
  next
    case True
    show ?thesis
    proof (cases "isSkippable s")
      case sk: True
      from 1(1) [OF True sk] 1(3) True sk show ?thesis
        by (auto simp: tokenize_loop_skip loop_states_skip [of s])
    next
      case nsk: False
      show ?thesis
      proof (cases "scan s")
        case (Continue s1)
        from 1(2) [OF True nsk Continue] 1(3) True nsk Continue show ?thesis
          by (auto simp: tokenize_loop_Continue loop_states_Continue [of s])
      next
        case (Return ts')
        with 1(3) True nsk show ?thesis by (simp add: tokenize_loop_Return)
      next
        case (Throw e')
        with 1(3) True nsk have "scan s = Throw e" by (simp add: tokenize_loop_Throw)
        with True loop_states_self [of s] show ?thesis by blast
      qed
    qed
  qed
qed

text \<open>
  As the code is, \<^verbatim>\<open>tokenize\<close> throws exactly when its loop comes to stand at a double
  quote with a newline or carriage return before the next double quote.
\<close>

lemma tokenize_throws:
  "(fst (tokenize U src) = Inl e) =
   (e = ''invalid string literal!'' \<and> (\<exists>t \<in> set (tokenize_states U src). line_break_in_literal t))"
proof
  assume a: "fst (tokenize U src) = Inl e"
  then obtain t where t: "t \<in> set (tokenize_states U src)" "idx t < LENGTH t" "scan t = Throw e"
    unfolding tokenize_def tokenize_states_def by (blast dest: tokenize_loop_throws)
  from scan_Throw_message [OF t(3)] have e: "e = ''invalid string literal!''" .
  from scan_Throw [OF t(3)] t(2) have o: "opens_string t" by (simp add: opens_string_def)
  from tokenize_states_source [OF t(1)] have "LENGTH t = length (srctext t)" by simp
  from scan_opens_string(2) [OF o this] t(3) e have "line_break_in_literal t" by simp
  with e t(1) show "e = ''invalid string literal!'' \<and>
      (\<exists>t \<in> set (tokenize_states U src). line_break_in_literal t)" by blast
next
  assume "e = ''invalid string literal!'' \<and>
      (\<exists>t \<in> set (tokenize_states U src). line_break_in_literal t)"
  then obtain t where e: "e = ''invalid string literal!''"
    and t: "t \<in> set (tokenize_states U src)" "line_break_in_literal t" by blast
  from t(2) have o: "opens_string t" by (simp add: line_break_in_literal_def)
  from tokenize_states_source [OF t(1)] have l: "LENGTH t = length (srctext t)" by simp
  from scan_opens_string [OF o l] t(2)
  have "\<not> isSkippable t" "scan t = Throw ''invalid string literal!''" by simp_all
  with o have "tokenize_loop t = (Inl ''invalid string literal!'', user_defined_classnames t)"
    by (intro tokenize_loop_Throw) (simp_all add: opens_string_def)
  with tokenize_tokenize_states [OF t(1)] e show "fst (tokenize U src) = Inl e" by simp
qed

text \<open>
  C2 as stated says that \<^verbatim>\<open>tokenize\<close> raises an error on every input with an unrecognized
  character. On \<^verbatim>\<open>y = #;\<close> it returns the empty token list instead.
\<close>

theorem tokenize_no_error_counterexample:
  "fst (tokenize {} ''y = #;'') = Inr []"
  by code_simp

text \<open>
  C2, amended: \<^verbatim>\<open>tokenize\<close> fails with no other error than \<^verbatim>\<open>invalid string literal!\<close> of
  \<^verbatim>\<open>buildString\<close>, and only in a run in which its loop comes to stand at a double quote
  (there the lexer starts a string literal) after which a newline or carriage return comes
  before the next double quote, or no further double quote comes. It does fail in every
  run in which the loop comes to stand at a double quote with a newline or carriage return
  before the next double quote. In a run in which the loop comes to stand at an
  unrecognized character it raises nothing and returns the empty token list.
\<close>

theorem tokenize_errors:
  "(fst (tokenize U src) = Inl e \<longrightarrow>
      e = ''invalid string literal!''
      \<and> (\<exists>t \<in> set (tokenize_states U src). line_break_in_literal t \<or> unterminated_literal t))
   \<and> ((\<exists>t \<in> set (tokenize_states U src). line_break_in_literal t)
      \<longrightarrow> fst (tokenize U src) = Inl ''invalid string literal!'')
   \<and> ((\<exists>t \<in> set (tokenize_states U src). at_unrecognized t)
      \<longrightarrow> fst (tokenize U src) = Inr [])"
proof -
  have A: "fst (tokenize U src) = Inl e \<longrightarrow>
      e = ''invalid string literal!''
      \<and> (\<exists>t \<in> set (tokenize_states U src). line_break_in_literal t \<or> unterminated_literal t)"
    using tokenize_throws [of U src e] by blast
  have B: "(\<exists>t \<in> set (tokenize_states U src). line_break_in_literal t)
      \<longrightarrow> fst (tokenize U src) = Inl ''invalid string literal!''"
    using tokenize_throws [of U src "''invalid string literal!''"] by blast
  have C: "(\<exists>t \<in> set (tokenize_states U src). at_unrecognized t)
      \<longrightarrow> fst (tokenize U src) = Inr []"
    by (auto intro: tokenize_at_unrecognized)
  from A B C show ?thesis by blast
qed

theorem tokenize_errors_witness:
  "fst (tokenize {} [CHR ''s'', CHR ''='', CHR 0x22, CHR ''a'', CHR 0x0A, CHR 0x22])
     = Inl ''invalid string literal!''
   \<and> (\<exists>t \<in> set (tokenize_states {} [CHR ''s'', CHR ''='', CHR 0x22, CHR ''a'', CHR 0x0A, CHR 0x22]).
        line_break_in_literal t \<or> unterminated_literal t)
   \<and> fst (tokenize {} ''y = #;'') = Inr []"
proof -
  let ?src = "[CHR ''s'', CHR ''='', CHR 0x22, CHR ''a'', CHR 0x0A, CHR 0x22]"
  let ?t = "\<lparr>srctext = ?src, tokens = [Token ''s'' Identifier, Token ''='' Equals], idx = 2,
             LENGTH = 6, lastType = Equals, user_defined_classnames = {}\<rparr>"
  let ?u = "\<lparr>srctext = ''y = #;'', tokens = [Token ''y'' Identifier, Token ''='' Equals],
             idx = 4, LENGTH = 6, lastType = Equals, user_defined_classnames = {}\<rparr>"
  have t: "?t \<in> set (tokenize_states {} ?src)" by code_simp
  have lb: "line_break_in_literal ?t" by code_simp
  have u: "?u \<in> set (tokenize_states {} ''y = #;'')" by code_simp
  have un: "at_unrecognized ?u" by code_simp
  from t lb have 1: "\<exists>t \<in> set (tokenize_states {} ?src). line_break_in_literal t" by blast
  from u un have 2: "\<exists>t \<in> set (tokenize_states {} ''y = #;''). at_unrecognized t" by blast
  note a = tokenize_errors [of "{}" ?src "''invalid string literal!''"]
  from a [THEN conjunct2, THEN conjunct1, THEN mp, OF 1]
  have f: "fst (tokenize {} ?src) = Inl ''invalid string literal!''" .
  from a [THEN conjunct1, THEN mp, OF f]
  have g: "\<exists>t \<in> set (tokenize_states {} ?src). line_break_in_literal t \<or> unterminated_literal t"
    by simp
  from tokenize_errors [of "{}" "''y = #;''" "[]", THEN conjunct2, THEN conjunct2, THEN mp, OF 2]
  have h: "fst (tokenize {} ''y = #;'') = Inr []" .
  from f g h show ?thesis by blast
qed

section \<open>The lexer and the set of class names\<close>

lemma core_eq_idx: "core_eq s t \<Longrightarrow> core_eq (s\<lparr>idx := k\<rparr>) (t\<lparr>idx := k\<rparr>)"
  by (simp add: core_eq_def)

lemma core_eq_reads:
  assumes "core_eq s t"
  shows "cur t = cur s" "isInt t = isInt s" "isAlpha t = isAlpha s" "isSkippable t = isSkippable s"
    "nextCharacterIsSame t = nextCharacterIsSame s" "nextCharacterIs t c = nextCharacterIs s c"
  using assms
  by (simp_all add: core_eq_def cur_def isInt_def isAlpha_def isSkippable_def
      nextCharacterIsSame_def nextCharacterIs_def)

lemma buildNumber_digits_sim:
  "core_eq s t \<Longrightarrow> buildNumber_digits s num = (s1, num1) \<Longrightarrow>
   buildNumber_digits t num = (t\<lparr>idx := idx s1\<rparr>, num1)"
proof (induction s num arbitrary: t rule: buildNumber_digits.induct)
  case (1 s num)
  note r = core_eq_reads [OF 1(2)]
  from 1(2) have i: "idx t = idx s" "LENGTH t = LENGTH s" by (simp_all add: core_eq_def)
  show ?case
  proof (cases "idx s < LENGTH s \<and> isInt s")
    case True
    with 1(3) have "buildNumber_digits (s\<lparr>idx := idx s + 1\<rparr>) (num @ [cur s]) = (s1, num1)"
      by (subst (asm) buildNumber_digits.simps) simp
    from 1(1) [OF True core_eq_idx [OF 1(2)] this] True r i show ?thesis
      by (subst buildNumber_digits.simps) simp
  next
    case False
    with 1(3) have "s1 = s" "num1 = num" by (subst (asm) buildNumber_digits.simps, auto)+
    with False r i show ?thesis by (subst buildNumber_digits.simps) auto
  qed
qed

lemma parseIdentifier_loop_sim:
  "core_eq s t \<Longrightarrow> parseIdentifier_loop s ident = (s1, ident1) \<Longrightarrow>
   parseIdentifier_loop t ident = (t\<lparr>idx := idx s1\<rparr>, ident1)"
proof (induction s ident arbitrary: t rule: parseIdentifier_loop.induct)
  case (1 s ident)
  note r = core_eq_reads [OF 1(2)]
  from 1(2) have i: "idx t = idx s" "LENGTH t = LENGTH s" by (simp_all add: core_eq_def)
  show ?case
  proof (cases "idx s < LENGTH s \<and> (isInt s \<or> isAlpha s \<or> cur s = CHR ''_'')")
    case True
    with 1(3) have "parseIdentifier_loop (s\<lparr>idx := idx s + 1\<rparr>) (ident @ [cur s]) = (s1, ident1)"
      by (subst (asm) parseIdentifier_loop.simps) simp
    from 1(1) [OF True core_eq_idx [OF 1(2)] this] True r i show ?thesis
      by (subst parseIdentifier_loop.simps) simp
  next
    case False
    with 1(3) have "s1 = s" "ident1 = ident" by (subst (asm) parseIdentifier_loop.simps, auto)+
    with False r i show ?thesis by (subst parseIdentifier_loop.simps) auto
  qed
qed

lemma skipComment_sim:
  "core_eq s t \<Longrightarrow> skipComment t c = t\<lparr>idx := idx (skipComment s c)\<rparr>"
proof (induction s c arbitrary: t rule: skipComment.induct)
  case (1 s c)
  from 1(2) have i: "idx t = idx s" "LENGTH t = LENGTH s" "srctext t = srctext s"
    by (simp_all add: core_eq_def)
  show ?case
  proof (cases "idx s < LENGTH s \<and> c \<noteq> CHR 0x0A")
    case True
    have a: "skipComment s c = skipComment (s\<lparr>idx := idx s + 1\<rparr>) (at (srctext s) (idx s + 1))"
      using True by (subst skipComment.simps) simp
    have b: "skipComment t c = skipComment (t\<lparr>idx := idx s + 1\<rparr>) (at (srctext s) (idx s + 1))"
      using True i by (subst skipComment.simps) simp
    from 1(1) [OF True core_eq_idx [OF 1(2)]] a b show ?thesis by simp
  next
    case False
    then have "skipComment s c = s" by (subst skipComment.simps) auto
    moreover from False i have "skipComment t c = t" by (subst skipComment.simps) auto
    ultimately show ?thesis using i by simp
  qed
qed

lemma buildString_loop_sim:
  "core_eq s t \<Longrightarrow>
   buildString_loop t str =
     (case buildString_loop s str of Inl e \<Rightarrow> Inl e | Inr (s1, str1) \<Rightarrow> Inr (t\<lparr>idx := idx s1\<rparr>, str1))"
proof (induction s str arbitrary: t rule: buildString_loop.induct)
  case (1 s str)
  from 1(2) have i: "idx t = idx s" "LENGTH t = LENGTH s" "srctext t = srctext s"
    by (simp_all add: core_eq_def)
  let ?c = "at (srctext s) (idx s + 1)"
  show ?case
  proof (cases "idx s + 1 < LENGTH s \<and> ?c \<noteq> CHR 0x22")
    case True
    show ?thesis
    proof (cases "?c = CHR 0x0A \<or> ?c = CHR 0x0D")
      case nl: True
      with True have "buildString_loop s str = Inl ''invalid string literal!''"
        by (subst buildString_loop.simps) simp
      moreover from nl True i have "buildString_loop t str = Inl ''invalid string literal!''"
        by (subst buildString_loop.simps) simp
      ultimately show ?thesis by simp
    next
      case False
      with True have a: "buildString_loop s str = buildString_loop (s\<lparr>idx := idx s + 1\<rparr>) (str @ [?c])"
        by (subst buildString_loop.simps) simp
      from False True i
      have b: "buildString_loop t str = buildString_loop (t\<lparr>idx := idx s + 1\<rparr>) (str @ [?c])"
        by (subst buildString_loop.simps) simp
      from 1(1) [OF True False core_eq_idx [OF 1(2)]] a b show ?thesis
        by (simp split: sum.splits prod.splits)
    qed
  next
    case False
    then have "buildString_loop s str = Inr (s\<lparr>idx := idx s + 1\<rparr>, str)"
      by (subst buildString_loop.simps) auto
    moreover from False i have "buildString_loop t str = Inr (t\<lparr>idx := idx t + 1\<rparr>, str)"
      by (subst buildString_loop.simps) auto
    ultimately show ?thesis using i by simp
  qed
qed

lemma same_kind_refl [simp]: "same_kind a a"
  by (simp add: same_kind_def)

lemma same_tokens_snoc:
  "list_all2 same_token a b \<Longrightarrow> same_kind ty ty' \<Longrightarrow>
   list_all2 same_token (a @ [Token v ty]) (b @ [Token v ty'])"
  by (simp add: list_all2_appendI same_token_def)

lemma sim_push:
  "lex_sim s t \<Longrightarrow> same_kind ty ty' \<Longrightarrow>
   sim_result s t (Continue (push_back (s\<lparr>idx := k\<rparr>) v ty)) (Continue (push_back (t\<lparr>idx := k\<rparr>) v ty'))"
  by (auto simp: sim_result_def lex_sim_def core_eq_def push_back_def same_tokens_snoc
      intro!: exI [of _ "{}"])

lemma sim_idx:
  "lex_sim s t \<Longrightarrow> sim_result s t (Continue (s\<lparr>idx := k\<rparr>)) (Continue (t\<lparr>idx := k\<rparr>))"
  by (auto simp: sim_result_def lex_sim_def core_eq_def intro!: exI [of _ "{}"])

lemma sim_single:
  "lex_sim s t \<Longrightarrow>
   sim_result s t (Continue (handleSingleCharacter s ty)) (Continue (handleSingleCharacter t ty))"
  by (auto simp: sim_result_def lex_sim_def core_eq_def push_back_def same_tokens_snoc
      handleSingleCharacter_def intro!: exI [of _ "{}"])

lemma sim_double:
  "lex_sim s t \<Longrightarrow>
   sim_result s t (Continue (handleDoubleCharacter s ty)) (Continue (handleDoubleCharacter t ty))"
  by (auto simp: sim_result_def lex_sim_def core_eq_def push_back_def same_tokens_snoc
      handleDoubleCharacter_def intro!: exI [of _ "{}"])

lemma sim_buildChar:
  "lex_sim s t \<Longrightarrow> sim_result s t (Continue (buildChar s)) (Continue (buildChar t))"
  by (auto simp: sim_result_def lex_sim_def core_eq_def push_back_def same_tokens_snoc
      buildChar_def Let_def cur_def intro!: exI [of _ "{}"])

lemma sim_skipComment:
  assumes "lex_sim s t"
  shows "sim_result s t (Continue (skipComment s c)) (Continue (skipComment t c))"
proof -
  from skipComment_frame [of s c] obtain k where k: "skipComment s c = s\<lparr>idx := k\<rparr>" by auto
  from assms have "core_eq s t" by (simp add: lex_sim_def)
  from skipComment_sim [OF this, of c] k have "skipComment t c = t\<lparr>idx := k\<rparr>" by simp
  with k sim_idx [OF assms, of k] show ?thesis by simp
qed

lemma buildNumber_sim:
  assumes "core_eq s t"
  shows "\<exists>k v ty. buildNumber neg s = push_back (s\<lparr>idx := k\<rparr>) v ty
               \<and> buildNumber neg t = push_back (t\<lparr>idx := k\<rparr>) v ty"
proof -
  define pre where "pre = (if neg then ''-'' else [])"
  obtain s1 num where d: "buildNumber_digits s pre = (s1, num)"
    by (cases "buildNumber_digits s pre")
  from buildNumber_digits_frame [OF d] obtain k where k: "s1 = s\<lparr>idx := k\<rparr>" by auto
  from buildNumber_digits_sim [OF assms d] k
  have dt: "buildNumber_digits t pre = (t\<lparr>idx := k\<rparr>, num)" by simp
  have c1: "core_eq (s\<lparr>idx := k\<rparr>) (t\<lparr>idx := k\<rparr>)" using assms by (rule core_eq_idx)
  note r = core_eq_reads [OF c1]
  from assms have i: "LENGTH t = LENGTH s" by (simp add: core_eq_def)
  obtain s3 num3 where d3: "buildNumber_digits (s\<lparr>idx := k + 1\<rparr>) (num @ [cur (s\<lparr>idx := k\<rparr>)]) = (s3, num3)"
    by (cases "buildNumber_digits (s\<lparr>idx := k + 1\<rparr>) (num @ [cur (s\<lparr>idx := k\<rparr>)])")
  from buildNumber_digits_frame [OF d3] obtain k3 where k3: "s3 = s\<lparr>idx := k3\<rparr>" by auto
  from buildNumber_digits_sim [OF core_eq_idx [OF assms] d3] k3
  have d3t: "buildNumber_digits (t\<lparr>idx := k + 1\<rparr>) (num @ [cur (s\<lparr>idx := k\<rparr>)]) = (t\<lparr>idx := k3\<rparr>, num3)"
    by simp
  show ?thesis
  proof (cases "k < LENGTH s \<and> cur (s\<lparr>idx := k\<rparr>) \<noteq> CHR ''.''")
    case True
    with d dt k r i show ?thesis
      by (intro exI [of _ "k - 1"] exI [of _ num]
          exI [of _ "if neg then negative_integer_literal else integer_literal"])
         (simp add: buildNumber_def push_back_def pre_def)
  next
    case False
    with d dt k r i d3 d3t k3 show ?thesis
      by (intro exI [of _ "k3 - 1"] exI [of _ num3] exI [of _ float_literal])
         (auto simp: buildNumber_def push_back_def pre_def)
  qed
qed

lemma sim_buildNumber:
  assumes "lex_sim s t"
  shows "sim_result s t (Continue (buildNumber neg (s\<lparr>idx := j\<rparr>))) (Continue (buildNumber neg (t\<lparr>idx := j\<rparr>)))"
proof -
  from assms have "core_eq (s\<lparr>idx := j\<rparr>) (t\<lparr>idx := j\<rparr>)" by (simp add: lex_sim_def core_eq_def)
  from buildNumber_sim [OF this, of neg] obtain k v ty where
    "buildNumber neg (s\<lparr>idx := j\<rparr>) = push_back (s\<lparr>idx := k\<rparr>) v ty"
    "buildNumber neg (t\<lparr>idx := j\<rparr>) = push_back (t\<lparr>idx := k\<rparr>) v ty"
    by auto
  with sim_push [OF assms, of ty ty k v] show ?thesis by simp
qed

lemma sim_buildString:
  assumes "lex_sim s t"
  shows "sim_result s t (case buildString s of Inl e \<Rightarrow> Throw e | Inr s1 \<Rightarrow> Continue s1)
                        (case buildString t of Inl e \<Rightarrow> Throw e | Inr s1 \<Rightarrow> Continue s1)"
proof -
  from assms have c: "core_eq s t" by (simp add: lex_sim_def)
  then have i: "idx t = idx s" "LENGTH t = LENGTH s" "srctext t = srctext s"
    by (simp_all add: core_eq_def)
  show ?thesis
  proof (cases "idx s < LENGTH s \<and> at (srctext s) (idx s + 1) = CHR 0x22")
    case True
    with i sim_push [OF assms, of string_literal string_literal "idx s" "[]"] show ?thesis
      by (simp add: buildString_def update_idx_same [of t "idx s"])
  next
    case False
    show ?thesis
    proof (cases "buildString_loop s []")
      case (Inl e)
      with buildString_loop_sim [OF c, of "[]"] False i show ?thesis
        by (auto simp: buildString_def sim_result_def)
    next
      case (Inr p)
      obtain s1 str1 where p: "p = (s1, str1)" by (cases p)
      from buildString_loop_frame [of s "[]" s1 str1] Inr p obtain k where k: "s1 = s\<lparr>idx := k\<rparr>"
        by auto
      from buildString_loop_sim [OF c, of "[]"] Inr p k
      have lt: "buildString_loop t [] = Inr (t\<lparr>idx := k\<rparr>, str1)" by simp
      from core_eq_reads(1) [OF core_eq_idx [OF c, of k]]
      have "cur (t\<lparr>idx := k\<rparr>) = cur (s\<lparr>idx := k\<rparr>)" .
      with False i Inr p k lt sim_push [OF assms, of string_literal string_literal k str1]
      show ?thesis
        by (auto simp: buildString_def sim_result_def)
    qed
  qed
qed

lemma sim_buildIdentifier:
  assumes "lex_sim s t"
  shows "sim_result s t (Continue (buildIdentifier s)) (Continue (buildIdentifier t))"
proof -
  from assms have c: "core_eq s t" by (simp add: lex_sim_def)
  obtain s0 ident where l: "parseIdentifier_loop s [] = (s0, ident)"
    by (cases "parseIdentifier_loop s []")
  from parseIdentifier_loop_frame [OF l] obtain k where k: "s0 = s\<lparr>idx := k\<rparr>" by auto
  from parseIdentifier_loop_sim [OF c l] k
  have lt: "parseIdentifier_loop t [] = (t\<lparr>idx := k\<rparr>, ident)" by simp
  have ps: "parseIdentifier s = (s\<lparr>idx := k - 1\<rparr>, ident)"
    using l k by (simp add: parseIdentifier_def)
  have pt: "parseIdentifier t = (t\<lparr>idx := k - 1\<rparr>, ident)"
    using lt by (simp add: parseIdentifier_def)
  from assms have cl: "(lastType s = class_T) = (lastType t = class_T)"
    by (auto simp: lex_sim_def same_kind_def)
  have ins: "sim_result s t
     (Continue (push_back (s\<lparr>idx := k - 1, user_defined_classnames := insert ident (user_defined_classnames s)\<rparr>) ident ClassType))
     (Continue (push_back (t\<lparr>idx := k - 1, user_defined_classnames := insert ident (user_defined_classnames t)\<rparr>) ident ClassType))"
    using assms
    by (auto simp: sim_result_def lex_sim_def core_eq_def push_back_def same_tokens_snoc
        intro!: exI [of _ "{ident}"])
  have sk: "same_kind ClassType Identifier" "same_kind Identifier ClassType"
    by (simp_all add: same_kind_def)
  show ?thesis
    using ps pt cl ins sim_push [OF assms, of _ _ "k - 1" ident] sk
    by (auto simp: buildIdentifier_def isUserDefinedClass_def split: option.splits)
qed

lemma scan_sim:
  assumes "lex_sim s t"
  shows "sim_result s t (scan s) (scan t)"
proof -
  from assms have c: "core_eq s t" by (simp add: lex_sim_def)
  note r = core_eq_reads [OF c]
  from c have i: "idx t = idx s" "LENGTH t = LENGTH s" by (simp_all add: core_eq_def)
  from assms have sc: "(isBinaryOperator (lastType t) \<or> lastType t = Equals
                \<or> lastType t = OParen \<or> lastType t = Comma)
     = (isBinaryOperator (lastType s) \<or> lastType s = Equals
                \<or> lastType s = OParen \<or> lastType s = Comma)"
    by (auto simp: lex_sim_def same_kind_def isBinaryOperator_def)
  have d: "isInt (t\<lparr>idx := idx s + 1\<rparr>) = isInt (s\<lparr>idx := idx s + 1\<rparr>)"
    using core_eq_reads(2) [OF core_eq_idx [OF c]] .
  have ret: "sim_result s t (Return []) (Return [])" by (simp add: sim_result_def)
  note sims = sim_single [OF assms] sim_double [OF assms] sim_buildChar [OF assms]
    sim_skipComment [OF assms] sim_buildString [OF assms] sim_buildIdentifier [OF assms]
    sim_buildNumber [OF assms, of _ "idx s + 1"]
  have n0: "sim_result s t (Continue (buildNumber False s)) (Continue (buildNumber False t))"
    using sim_buildNumber [OF assms, of False "idx s"] i by (simp add: update_idx_same)
  show ?thesis
    unfolding scan_def Let_def r i sc d
    using sims n0 ret by (simp add: update_idx_same i)
qed

lemma lex_sim_next: "lex_sim s t \<Longrightarrow> lex_sim (s\<lparr>idx := idx s + 1\<rparr>) (t\<lparr>idx := idx t + 1\<rparr>)"
  by (simp add: lex_sim_def core_eq_def)

lemma tokenize_loop_sim:
  "lex_sim s t \<Longrightarrow>
   same_outcome (fst (tokenize_loop s)) (fst (tokenize_loop t)) \<and>
   (\<exists>N. snd (tokenize_loop s) = user_defined_classnames s \<union> N
      \<and> snd (tokenize_loop t) = user_defined_classnames t \<union> N)"
proof (induction s arbitrary: t rule: tokenize_loop.induct)
  case (1 s)
  from 1(3) have c: "core_eq s t" by (simp add: lex_sim_def)
  then have i: "idx t = idx s" "LENGTH t = LENGTH s" by (simp_all add: core_eq_def)
  note r = core_eq_reads [OF c]
  show ?case
  proof (cases "idx s < LENGTH s")
    case False
    with i 1(3) show ?thesis
      by (auto simp: tokenize_loop_end same_outcome_def lex_sim_def same_tokens_snoc
          intro!: exI [of _ "{}"])
  next
    case True
    show ?thesis
    proof (cases "isSkippable s")
      case skip: True
      from 1(1) [OF True skip lex_sim_next [OF 1(3)]] True skip i r show ?thesis
        by (simp add: tokenize_loop_skip)
    next
      case noskip: False
      from True noskip i r have Tt: "idx t < LENGTH t" "\<not> isSkippable t" by simp_all
      show ?thesis
      proof (cases "scan s")
        case (Continue s1)
        with scan_sim [OF 1(3)] obtain t1 N1 where t1: "scan t = Continue t1" "lex_sim s1 t1"
          "user_defined_classnames s1 = user_defined_classnames s \<union> N1"
          "user_defined_classnames t1 = user_defined_classnames t \<union> N1"
          by (auto simp: sim_result_def)
        from 1(2) [OF True noskip Continue lex_sim_next [OF t1(2)]]
        obtain N2 where
          o: "same_outcome (fst (tokenize_loop (s1\<lparr>idx := idx s1 + 1\<rparr>)))
                            (fst (tokenize_loop (t1\<lparr>idx := idx t1 + 1\<rparr>)))" and
          n: "snd (tokenize_loop (s1\<lparr>idx := idx s1 + 1\<rparr>)) = user_defined_classnames s1 \<union> N2"
             "snd (tokenize_loop (t1\<lparr>idx := idx t1 + 1\<rparr>)) = user_defined_classnames t1 \<union> N2"
          by auto
        have a: "tokenize_loop s = tokenize_loop (s1\<lparr>idx := idx s1 + 1\<rparr>)"
          using True noskip Continue by (rule tokenize_loop_Continue)
        have b: "tokenize_loop t = tokenize_loop (t1\<lparr>idx := idx t1 + 1\<rparr>)"
          using Tt t1(1) by (rule tokenize_loop_Continue)
        from o n t1(3,4) show ?thesis
          unfolding a b by (intro conjI exI [of _ "N1 \<union> N2"]) auto
      next
        case (Return ts)
        with scan_sim [OF 1(3)] have "scan t = Return ts" by (simp add: sim_result_def)
        with Return True noskip Tt scan_Return [OF Return] show ?thesis
          by (auto simp: tokenize_loop_Return same_outcome_def intro!: exI [of _ "{}"])
      next
        case (Throw e)
        with scan_sim [OF 1(3)] have "scan t = Throw e" by (simp add: sim_result_def)
        with Throw True noskip Tt show ?thesis
          by (auto simp: tokenize_loop_Throw same_outcome_def intro!: exI [of _ "{}"])
      qed
    qed
  qed
qed

lemma tokenize_sim:
  "same_outcome (fst (tokenize U src)) (fst (tokenize V src))
   \<and> (\<exists>N. snd (tokenize U src) = U \<union> N \<and> snd (tokenize V src) = V \<union> N)"
proof -
  let ?a = "\<lparr>srctext = src, tokens = [], idx = 0, LENGTH = length src,
             lastType = EOF_T, user_defined_classnames = U\<rparr>"
  let ?b = "\<lparr>srctext = src, tokens = [], idx = 0, LENGTH = length src,
             lastType = EOF_T, user_defined_classnames = V\<rparr>"
  have "lex_sim ?a ?b" by (simp add: lex_sim_def core_eq_def)
  from tokenize_loop_sim [OF this] show ?thesis by (simp add: tokenize_def)
qed

text \<open>
  C3 as stated says that two invocations of \<^verbatim>\<open>tokenize\<close> on the same source return the
  same token list. The first invocation on \<^verbatim>\<open>Foo class Foo\<close> classifies the leading \<^verbatim>\<open>Foo\<close>
  as \<^verbatim>\<open>Identifier\<close> and stores the name in \<^verbatim>\<open>user_defined_classnames\<close>; the second
  invocation classifies it as \<^verbatim>\<open>ClassType\<close>.
\<close>

theorem tokenize_twice_counterexample:
  "fst (tokenize {} ''Foo class Foo'') =
     Inr [Token ''Foo'' Identifier, Token ''class'' class_T, Token ''Foo'' ClassType, Token [] EOF_T]
   \<and> fst (tokenize (snd (tokenize {} ''Foo class Foo'')) ''Foo class Foo'') =
     Inr [Token ''Foo'' ClassType, Token ''class'' class_T, Token ''Foo'' ClassType, Token [] EOF_T]"
  by code_simp

text \<open>
  C3, amended: \<^verbatim>\<open>tokenize\<close> is a function of its source and of the content of the
  process-wide set \<^verbatim>\<open>user_defined_classnames\<close> at the call. For any two contents \<open>U\<close> and
  \<open>V\<close>, the two runs on the same source fail alike or return lists of the same length
  with the same texts and the same kinds, except that an \<^verbatim>\<open>Identifier\<close> of one may be a
  \<^verbatim>\<open>ClassType\<close> of the other; both runs add the same names to the set; and after one
  invocation a further invocation on the same source adds nothing, so that from the second
  invocation on, repeated invocations on that source return the same list.
\<close>

theorem tokenize_classnames_dependence:
  "same_outcome (fst (tokenize U src)) (fst (tokenize V src))
   \<and> (\<exists>N. snd (tokenize U src) = U \<union> N \<and> snd (tokenize V src) = V \<union> N)
   \<and> snd (tokenize (snd (tokenize U src)) src) = snd (tokenize U src)"
proof -
  define W where "W = snd (tokenize U src)"
  from tokenize_sim [of U src W]
  obtain N where a: "W = U \<union> N" and b: "snd (tokenize W src) = W \<union> N"
    unfolding W_def by blast
  have "N \<subseteq> W" by (subst a) simp
  then have "W \<union> N = W" by (rule Un_absorb2)
  with b have "snd (tokenize W src) = W" by simp
  with tokenize_sim [of U src V] show ?thesis by (simp add: W_def)
qed

section \<open>The call depth\<close>

text \<open>
  A result other than \<^verbatim>\<open>OutOfFuel\<close> does not depend on the depth: every body calls the
  parsers of the depth below in the same places, so a parse that was completed at one
  depth is completed with the same result at every greater one.
\<close>

lemma extends_refl [simp]: "extends r r"
  by (simp add: extends_def)

lemma extends_OutOfFuel [simp]: "extends OutOfFuel r"
  by (simp add: extends_def)

lemma extends_trans: "extends a b \<Longrightarrow> extends b c \<Longrightarrow> extends a c"
  by (auto simp: extends_def)

lemma extends_and_then:
  "extends m m' \<Longrightarrow> (\<And>x. m = Ok x \<Longrightarrow> extends (f x) (f' x)) \<Longrightarrow>
   extends (and_then m f) (and_then m' f')"
  by (cases m) (auto simp: extends_def)

lemma extends_if:
  "(c \<Longrightarrow> extends a a') \<Longrightarrow> (\<not> c \<Longrightarrow> extends b b') \<Longrightarrow>
   extends (if c then a else b) (if c then a' else b')"
  by simp

lemma extends_case_prod:
  "(\<And>a b. extends (f a b) (f' a b)) \<Longrightarrow> extends (case_prod f p) (case_prod f' p)"
  by (cases p) simp

lemmas extends_intros = extends_and_then extends_if extends_case_prod

lemma parseExpression_body_ext:
  "expr_ext p q \<Longrightarrow> extends (parseExpression_body p x0 x1 x2) (parseExpression_body q x0 x1 x2)"
  unfolding parseExpression_body_def expr_ext_def
  by (intro extends_intros extends_refl conjI impI allI | blast | simp)+

lemma parseAssignmentExpression_body_ext:
  "expr_ext p q \<Longrightarrow> extends (parseAssignmentExpression_body p x0 x1 x2) (parseAssignmentExpression_body q x0 x1 x2)"
  unfolding parseAssignmentExpression_body_def expr_ext_def
  by (intro extends_intros extends_refl conjI impI allI | blast | simp)+

lemma parseVariableDeclaration_body_ext:
  "expr_ext p q \<Longrightarrow> extends (parseVariableDeclaration_body p x0 x1) (parseVariableDeclaration_body q x0 x1)"
  unfolding parseVariableDeclaration_body_def expr_ext_def
  by (intro extends_intros extends_refl conjI impI allI | blast | simp)+

lemma parseFunctionCall_body_ext:
  "expr_ext p q \<Longrightarrow> extends (parseFunctionCall_body p x0 x1 x2) (parseFunctionCall_body q x0 x1 x2)"
  unfolding parseFunctionCall_body_def expr_ext_def
  by (intro extends_intros extends_refl conjI impI allI | blast | simp)+

lemma parseFunctionCall_loop_body_ext:
  "expr_ext p q \<Longrightarrow> extends (parseFunctionCall_loop_body p x0 x1 x2 x3) (parseFunctionCall_loop_body q x0 x1 x2 x3)"
  unfolding parseFunctionCall_loop_body_def expr_ext_def
  by (intro extends_intros extends_refl conjI impI allI | blast | simp)+

lemma parseBooleanExpression_body_ext:
  "expr_ext p q \<Longrightarrow> extends (parseBooleanExpression_body p x0 x1) (parseBooleanExpression_body q x0 x1)"
  unfolding parseBooleanExpression_body_def expr_ext_def
  by (intro extends_intros extends_refl conjI impI allI | blast | simp)+

lemma parseBooleanExpression_loop_body_ext:
  "expr_ext p q \<Longrightarrow> extends (parseBooleanExpression_loop_body p x0 x1 x2) (parseBooleanExpression_loop_body q x0 x1 x2)"
  unfolding parseBooleanExpression_loop_body_def expr_ext_def
  by (intro extends_intros extends_refl conjI impI allI | blast | simp)+

lemma parseAdditiveExpression_body_ext:
  "expr_ext p q \<Longrightarrow> extends (parseAdditiveExpression_body p x0 x1) (parseAdditiveExpression_body q x0 x1)"
  unfolding parseAdditiveExpression_body_def expr_ext_def
  by (intro extends_intros extends_refl conjI impI allI | blast | simp)+

lemma parseAdditiveExpression_loop_body_ext:
  "expr_ext p q \<Longrightarrow> extends (parseAdditiveExpression_loop_body p x0 x1 x2) (parseAdditiveExpression_loop_body q x0 x1 x2)"
  unfolding parseAdditiveExpression_loop_body_def expr_ext_def
  by (intro extends_intros extends_refl conjI impI allI | blast | simp)+

lemma parseMultiplicativeExpression_body_ext:
  "expr_ext p q \<Longrightarrow> extends (parseMultiplicativeExpression_body p x0 x1) (parseMultiplicativeExpression_body q x0 x1)"
  unfolding parseMultiplicativeExpression_body_def expr_ext_def
  by (intro extends_intros extends_refl conjI impI allI | blast | simp)+

lemma parseMultiplicativeExpression_loop_body_ext:
  "expr_ext p q \<Longrightarrow> extends (parseMultiplicativeExpression_loop_body p x0 x1 x2) (parseMultiplicativeExpression_loop_body q x0 x1 x2)"
  unfolding parseMultiplicativeExpression_loop_body_def expr_ext_def
  by (intro extends_intros extends_refl conjI impI allI | blast | simp)+

lemma parseExponentialExpression_body_ext:
  "expr_ext p q \<Longrightarrow> extends (parseExponentialExpression_body p x0 x1) (parseExponentialExpression_body q x0 x1)"
  unfolding parseExponentialExpression_body_def expr_ext_def
  by (intro extends_intros extends_refl conjI impI allI | blast | simp)+

lemma parseExponentialExpression_loop_body_ext:
  "expr_ext p q \<Longrightarrow> extends (parseExponentialExpression_loop_body p x0 x1 x2) (parseExponentialExpression_loop_body q x0 x1 x2)"
  unfolding parseExponentialExpression_loop_body_def expr_ext_def
  by (intro extends_intros extends_refl conjI impI allI | blast | simp)+

lemma parseDotExpression_body_ext:
  "expr_ext p q \<Longrightarrow> extends (parseDotExpression_body p x0 x1) (parseDotExpression_body q x0 x1)"
  unfolding parseDotExpression_body_def expr_ext_def
  by (intro extends_intros extends_refl conjI impI allI | blast | simp)+

lemma parseDotExpression_loop_body_ext:
  "expr_ext p q \<Longrightarrow> extends (parseDotExpression_loop_body p x0 x1 x2) (parseDotExpression_loop_body q x0 x1 x2)"
  unfolding parseDotExpression_loop_body_def expr_ext_def
  by (intro extends_intros extends_refl conjI impI allI | blast | simp)+

lemma parsePrimaryExpression_body_ext:
  "expr_ext p q \<Longrightarrow> extends (parsePrimaryExpression_body p x0 x1) (parsePrimaryExpression_body q x0 x1)"
  unfolding parsePrimaryExpression_body_def expr_ext_def
  by (intro extends_intros extends_refl conjI impI allI | blast | simp)+

lemma expr_ext_refl: "expr_ext p p"
  by (simp add: expr_ext_def)

lemma expr_ext_0: "expr_ext (expr_parsers_at 0) q"
  by (simp add: expr_ext_def expr_parsers_at.simps)

lemma expr_ext_step:
  "expr_ext (expr_parsers_at n) (expr_parsers_at m) \<Longrightarrow>
   expr_ext (expr_parsers_at (Suc n)) (expr_parsers_at (Suc m))"
  unfolding expr_ext_def [of "expr_parsers_at (Suc n)"]
  by (simp add: expr_parsers_at.simps parseExpression_body_ext parseAssignmentExpression_body_ext
      parseVariableDeclaration_body_ext parseFunctionCall_body_ext
      parseFunctionCall_loop_body_ext parseBooleanExpression_body_ext
      parseBooleanExpression_loop_body_ext parseAdditiveExpression_body_ext
      parseAdditiveExpression_loop_body_ext parseMultiplicativeExpression_body_ext
      parseMultiplicativeExpression_loop_body_ext parseExponentialExpression_body_ext
      parseExponentialExpression_loop_body_ext parseDotExpression_body_ext
      parseDotExpression_loop_body_ext parsePrimaryExpression_body_ext)

lemma expr_ext_le: "n \<le> m \<Longrightarrow> expr_ext (expr_parsers_at n) (expr_parsers_at m)"
proof (induction n arbitrary: m)
  case 0
  show ?case by (rule expr_ext_0)
next
  case (Suc n)
  from Suc.prems obtain k where m: "m = Suc k" and "n \<le> k"
    by (cases m) simp_all
  from Suc.IH [OF \<open>n \<le> k\<close>] show ?case
    unfolding m by (rule expr_ext_step)
qed

lemma parseExpression_ext:
  "n \<le> m \<Longrightarrow> extends (parseExpression b n ts i) (parseExpression b m ts i)"
  using expr_ext_le [of n m] by (simp add: expr_ext_def parseExpression_def)

lemma parseAssignmentExpression_ext:
  "n \<le> m \<Longrightarrow> extends (parseAssignmentExpression b n ts i) (parseAssignmentExpression b m ts i)"
  using expr_ext_le [of n m] by (simp add: expr_ext_def parseAssignmentExpression_def)

lemma parseVariableDeclaration_ext:
  "n \<le> m \<Longrightarrow> extends (parseVariableDeclaration n ts i) (parseVariableDeclaration m ts i)"
  using expr_ext_le [of n m] by (simp add: expr_ext_def parseVariableDeclaration_def)

lemma handleIdentifier_ext:
  "n \<le> m \<Longrightarrow> extends (handleIdentifier n ts i) (handleIdentifier m ts i)"
  by (simp add: handleIdentifier_def parseAssignmentExpression_ext)

lemmas expr_exts = parseExpression_ext parseAssignmentExpression_ext
  parseVariableDeclaration_ext handleIdentifier_ext

lemma parseStatement_body_ext:
  "stmt_ext p q \<Longrightarrow> n \<le> m \<Longrightarrow>
   extends (parseStatement_body p n x0 x1 x2) (parseStatement_body q m x0 x1 x2)"
  unfolding parseStatement_body_def stmt_ext_def
  by (intro extends_intros extends_refl expr_exts conjI impI allI | blast | simp)+

lemma parseIfStatement_body_ext:
  "stmt_ext p q \<Longrightarrow> n \<le> m \<Longrightarrow>
   extends (parseIfStatement_body p n x0 x1) (parseIfStatement_body q m x0 x1)"
  unfolding parseIfStatement_body_def stmt_ext_def
  by (intro extends_intros extends_refl expr_exts conjI impI allI | blast | simp)+

lemma parseIfStatement_loop_body_ext:
  "stmt_ext p q \<Longrightarrow> n \<le> m \<Longrightarrow>
   extends (parseIfStatement_loop_body p n x0 x1 x2) (parseIfStatement_loop_body q m x0 x1 x2)"
  unfolding parseIfStatement_loop_body_def stmt_ext_def
  by (intro extends_intros extends_refl expr_exts conjI impI allI | blast | simp)+

lemma parseNameSpaceDeclaration_body_ext:
  "stmt_ext p q \<Longrightarrow> n \<le> m \<Longrightarrow>
   extends (parseNameSpaceDeclaration_body p n x0 x1) (parseNameSpaceDeclaration_body q m x0 x1)"
  unfolding parseNameSpaceDeclaration_body_def stmt_ext_def
  by (intro extends_intros extends_refl expr_exts conjI impI allI | blast | simp)+

lemma parseNameSpaceDeclaration_loop_body_ext:
  "stmt_ext p q \<Longrightarrow> n \<le> m \<Longrightarrow>
   extends (parseNameSpaceDeclaration_loop_body p n x0 x1 x2) (parseNameSpaceDeclaration_loop_body q m x0 x1 x2)"
  unfolding parseNameSpaceDeclaration_loop_body_def stmt_ext_def
  by (intro extends_intros extends_refl expr_exts conjI impI allI | blast | simp)+

lemma parseClassDefinition_body_ext:
  "stmt_ext p q \<Longrightarrow> n \<le> m \<Longrightarrow>
   extends (parseClassDefinition_body p n x0 x1) (parseClassDefinition_body q m x0 x1)"
  unfolding parseClassDefinition_body_def stmt_ext_def
  by (intro extends_intros extends_refl expr_exts conjI impI allI | blast | simp)+

lemma parseClassDefinition_loop_body_ext:
  "stmt_ext p q \<Longrightarrow> n \<le> m \<Longrightarrow>
   extends (parseClassDefinition_loop_body p n x0 x1 x2 x3 x4) (parseClassDefinition_loop_body q m x0 x1 x2 x3 x4)"
  unfolding parseClassDefinition_loop_body_def stmt_ext_def
  by (intro extends_intros extends_refl expr_exts conjI impI allI | blast | simp)+

lemma handleType_body_ext:
  "stmt_ext p q \<Longrightarrow> n \<le> m \<Longrightarrow>
   extends (handleType_body p n x0 x1) (handleType_body q m x0 x1)"
  unfolding handleType_body_def stmt_ext_def
  by (intro extends_intros extends_refl expr_exts conjI impI allI | blast | simp)+

lemma handleMutable_body_ext:
  "stmt_ext p q \<Longrightarrow> n \<le> m \<Longrightarrow>
   extends (handleMutable_body p n x0 x1) (handleMutable_body q m x0 x1)"
  unfolding handleMutable_body_def stmt_ext_def
  by (intro extends_intros extends_refl expr_exts conjI impI allI | blast | simp)+

lemma parseFunctionDeclaration_body_ext:
  "stmt_ext p q \<Longrightarrow> n \<le> m \<Longrightarrow>
   extends (parseFunctionDeclaration_body p n x0 x1) (parseFunctionDeclaration_body q m x0 x1)"
  unfolding parseFunctionDeclaration_body_def stmt_ext_def
  by (intro extends_intros extends_refl expr_exts conjI impI allI | blast | simp)+

lemma parseFunctionDeclaration_loop_body_ext:
  "stmt_ext p q \<Longrightarrow> n \<le> m \<Longrightarrow>
   extends (parseFunctionDeclaration_loop_body p n x0 x1 x2) (parseFunctionDeclaration_loop_body q m x0 x1 x2)"
  unfolding parseFunctionDeclaration_loop_body_def stmt_ext_def
  by (intro extends_intros extends_refl expr_exts conjI impI allI | blast | simp)+

lemma parseReturnStatement_body_ext:
  "stmt_ext p q \<Longrightarrow> n \<le> m \<Longrightarrow>
   extends (parseReturnStatement_body p n x0 x1) (parseReturnStatement_body q m x0 x1)"
  unfolding parseReturnStatement_body_def stmt_ext_def
  by (intro extends_intros extends_refl expr_exts conjI impI allI | blast | simp)+

lemma produceAST_loop_body_ext:
  "stmt_ext p q \<Longrightarrow> n \<le> m \<Longrightarrow>
   extends (produceAST_loop_body p n x0 x1 x2) (produceAST_loop_body q m x0 x1 x2)"
  unfolding produceAST_loop_body_def stmt_ext_def
  by (intro extends_intros extends_refl expr_exts conjI impI allI | blast | simp)+

lemma stmt_ext_0: "stmt_ext (stmt_parsers_at 0) q"
  by (simp add: stmt_ext_def stmt_parsers_at.simps)

lemma stmt_ext_step:
  "stmt_ext (stmt_parsers_at n) (stmt_parsers_at m) \<Longrightarrow> n \<le> m \<Longrightarrow>
   stmt_ext (stmt_parsers_at (Suc n)) (stmt_parsers_at (Suc m))"
  unfolding stmt_ext_def [of "stmt_parsers_at (Suc n)"]
  by (simp add: stmt_parsers_at.simps parseStatement_body_ext parseIfStatement_body_ext parseIfStatement_loop_body_ext parseNameSpaceDeclaration_body_ext parseNameSpaceDeclaration_loop_body_ext parseClassDefinition_body_ext parseClassDefinition_loop_body_ext handleType_body_ext handleMutable_body_ext parseFunctionDeclaration_body_ext parseFunctionDeclaration_loop_body_ext parseReturnStatement_body_ext produceAST_loop_body_ext)

lemma stmt_ext_le: "n \<le> m \<Longrightarrow> stmt_ext (stmt_parsers_at n) (stmt_parsers_at m)"
proof (induction n arbitrary: m)
  case 0
  show ?case by (rule stmt_ext_0)
next
  case (Suc n)
  from Suc.prems obtain k where m: "m = Suc k" and "n \<le> k"
    by (cases m) simp_all
  from Suc.IH [OF \<open>n \<le> k\<close>] \<open>n \<le> k\<close> show ?case
    unfolding m by (rule stmt_ext_step)
qed

lemma parseStatement_ext:
  "n \<le> m \<Longrightarrow> extends (parseStatement b n ts i) (parseStatement b m ts i)"
  using stmt_ext_le [of n m] by (simp add: stmt_ext_def parseStatement_def)

lemma parseIfStatement_ext:
  "n \<le> m \<Longrightarrow> extends (parseIfStatement n ts i) (parseIfStatement m ts i)"
  using stmt_ext_le [of n m] by (simp add: stmt_ext_def parseIfStatement_def)

lemma parseFunctionDeclaration_ext:
  "n \<le> m \<Longrightarrow> extends (parseFunctionDeclaration n ts i) (parseFunctionDeclaration m ts i)"
  using stmt_ext_le [of n m] by (simp add: stmt_ext_def parseFunctionDeclaration_def)

lemma produceAST_loop_ext:
  "n \<le> m \<Longrightarrow> extends (produceAST_loop n ts i acc) (produceAST_loop m ts i acc)"
  using stmt_ext_le [of n m] by (simp add: stmt_ext_def produceAST_loop_def)

lemma produceAST_ext: "n \<le> m \<Longrightarrow> extends (produceAST n ts) (produceAST m ts)"
  unfolding produceAST_def
  by (intro extends_intros extends_refl produceAST_loop_ext) simp

lemma extendsD: "extends r r' \<Longrightarrow> r \<noteq> OutOfFuel \<Longrightarrow> r' = r"
  by (simp add: extends_def)

lemma produceAST_depth:
  "produceAST n ts = r \<Longrightarrow> r \<noteq> OutOfFuel \<Longrightarrow> n \<le> m \<Longrightarrow> produceAST m ts = r"
  using extendsD [OF produceAST_ext, of n m ts] by simp

lemma parseStatement_depth:
  "parseStatement b n ts i = r \<Longrightarrow> r \<noteq> OutOfFuel \<Longrightarrow> n \<le> m \<Longrightarrow>
   parseStatement b m ts i = r"
  using extendsD [OF parseStatement_ext, of n m b ts i] by simp

lemma parseVariableDeclaration_depth:
  "parseVariableDeclaration n ts i = r \<Longrightarrow> r \<noteq> OutOfFuel \<Longrightarrow> n \<le> m \<Longrightarrow>
   parseVariableDeclaration m ts i = r"
  using extendsD [OF parseVariableDeclaration_ext, of n m ts i] by simp

section \<open>Variable declarations\<close>

lemma and_then_Ok:
  "and_then m f = Ok y \<Longrightarrow> \<exists>x. m = Ok x \<and> f x = Ok y"
  by (cases m) simp_all

lemma TypeName_ctor_Ok:
  "TypeName_ctor nm m r p = Ok ty \<Longrightarrow> tn_name ty = nm \<and> tn_isMutable ty = m"
  by (auto simp: TypeName_ctor_def split: if_splits)

text \<open>
  C5: the node that \<^verbatim>\<open>parseVariableDeclaration\<close> returns. In the semicolon branch
  (\<^verbatim>\<open>type name;\<close>) its \<^verbatim>\<open>isMutable\<close> is false whether or not the source has the
  \<^verbatim>\<open>mutable\<close> prefix (which the type name still records) and its value is absent; otherwise
  the token after the name is \<^verbatim>\<open>=\<close>, \<^verbatim>\<open>isMutable\<close> is the presence of the prefix and the
  value is present. No other function of the parser builds a \<^verbatim>\<open>VariableDeclaration\<close>.
\<close>

theorem parseVariableDeclaration_isMutable:
  assumes "parseVariableDeclaration n ts i = Ok (e, j)"
  shows "(ttype (ts ! after_name ts i) = Semicolon \<longrightarrow>
            (\<exists>ty nm. e = VariableDeclaration False ty nm None
                     \<and> tn_isMutable ty = has_mutable ts i))
       \<and> (ttype (ts ! after_name ts i) \<noteq> Semicolon \<longrightarrow>
            (\<exists>ty nm v. e = VariableDeclaration (has_mutable ts i) ty nm (Some v)
                       \<and> tn_isMutable ty = has_mutable ts i
                       \<and> ttype (ts ! after_name ts i) = Equals))"
proof -
  obtain n' where n: "n = Suc n'"
    using assms by (cases n) (simp_all add: expr_parsers_0)
  from assms have b: "parseVariableDeclaration_body (expr_parsers_at n') ts i = Ok (e, j)"
    by (simp add: n expr_parsers_Suc)
  from b obtain isMutable i1 where 1: "eatIfMutable ts i = Ok (isMutable, i1)"
    and b1: "and_then (expect2 ClassType PrimitiveType ''expected type in variable declaration'' ts i1)
       (\<lambda>(typetk, i2).
     and_then (eatIfRefOrPtr ts i2) (\<lambda>(isRef, isPtr, i3).
     and_then (TypeName_ctor (tvalue typetk) isMutable isRef isPtr) (\<lambda>ty.
     and_then (expect Identifier ''Expected an identifier for a variable'' ts i3) (\<lambda>(nametk, i4).
     and_then (peek ts i4) (\<lambda>tk.
       if ttype tk = Semicolon then
         and_then (eat ts i4) (\<lambda>(_, i5).
         Ok (VariableDeclaration False ty (tvalue nametk) None, i5))
       else
         and_then (expect Equals
                     (''Expected an '' @ [CHR 0x27] @ ''='' @ [CHR 0x27] @ '' after identifier.'')
                     ts i4)
           (\<lambda>(_, i5).
         and_then (r_parseExpression (expr_parsers_at n') True ts i5) (\<lambda>(expr, i6).
         Ok (VariableDeclaration isMutable ty (tvalue nametk) (Some expr), i6)))))))) = Ok (e, j)"
    unfolding parseVariableDeclaration_body_def by (auto dest!: and_then_Ok)
  from b1 obtain typetk i2 isRef isPtr i3 ty nametk i4 tk where
    2: "expect2 ClassType PrimitiveType ''expected type in variable declaration'' ts i1 = Ok (typetk, i2)"
    and 3: "eatIfRefOrPtr ts i2 = Ok (isRef, isPtr, i3)"
    and 4: "TypeName_ctor (tvalue typetk) isMutable isRef isPtr = Ok ty"
    and 5: "expect Identifier ''Expected an identifier for a variable'' ts i3 = Ok (nametk, i4)"
    and 6: "peek ts i4 = Ok tk"
    and b2: "(if ttype tk = Semicolon then
         and_then (eat ts i4) (\<lambda>(_, i5).
         Ok (VariableDeclaration False ty (tvalue nametk) None, i5))
       else
         and_then (expect Equals
                     (''Expected an '' @ [CHR 0x27] @ ''='' @ [CHR 0x27] @ '' after identifier.'')
                     ts i4)
           (\<lambda>(_, i5).
         and_then (r_parseExpression (expr_parsers_at n') True ts i5) (\<lambda>(expr, i6).
         Ok (VariableDeclaration isMutable ty (tvalue nametk) (Some expr), i6)))) = Ok (e, j)"
    by (auto dest!: and_then_Ok)
  from eatIfMutable_Ok [OF 1] have m: "isMutable = has_mutable ts i"
    and i1: "i1 = (if has_mutable ts i then i + 1 else i)"
    by (auto simp: has_mutable_def)
  from expect2_Ok [OF 2] have i2: "i2 = i1 + 1" by simp
  from eatIfRefOrPtr_Ok [OF 3] have i3: "i3 = (if isRefOrPtr (ts ! i2) then i2 + 1 else i2)"
    by (auto simp: isRefOrPtr_def)
  from expect_Ok [OF 5] have i4: "i4 = i3 + 1" by simp
  from i1 i2 i3 i4 have an: "after_name ts i = i4"
    by (simp add: after_name_def Let_def)
  from peek_Ok [OF 6] an have tk: "tk = ts ! after_name ts i" by simp
  from TypeName_ctor_Ok [OF 4] m have tym: "tn_isMutable ty = has_mutable ts i" by simp
  show ?thesis
  proof (cases "ttype tk = Semicolon")
    case True
    with b2 have "e = VariableDeclaration False ty (tvalue nametk) None"
      by (auto dest!: and_then_Ok)
    with True tk tym show ?thesis by auto
  next
    case False
    with b2 obtain v where "e = VariableDeclaration isMutable ty (tvalue nametk) (Some v)"
      and "ttype (ts ! i4) = Equals"
      by (auto dest!: and_then_Ok expect_Ok)
    with False tk tym m an show ?thesis by auto
  qed
qed

theorem parseVariableDeclaration_isMutable_witness:
  "parseVariableDeclaration 60
     [Token ''mutable'' mutable_T, Token ''int32'' PrimitiveType, Token ''y'' Identifier,
      Token '';'' Semicolon, Token [] EOF_T] 0
     = Ok (VariableDeclaration False (TypeName ''int32'' True []) ''y'' None, 4)
   \<and> parseVariableDeclaration 60
     [Token ''mutable'' mutable_T, Token ''int32'' PrimitiveType, Token ''y'' Identifier,
      Token ''='' Equals, Token ''1'' integer_literal, Token '';'' Semicolon, Token [] EOF_T] 0
     = Ok (VariableDeclaration True (TypeName ''int32'' True []) ''y''
             (Some (NumericLiteral_uint64 1)), 6)"
proof -
  let ?a = "[Token ''mutable'' mutable_T, Token ''int32'' PrimitiveType, Token ''y'' Identifier,
      Token '';'' Semicolon, Token [] EOF_T]"
  let ?b = "[Token ''mutable'' mutable_T, Token ''int32'' PrimitiveType, Token ''y'' Identifier,
      Token ''='' Equals, Token ''1'' integer_literal, Token '';'' Semicolon, Token [] EOF_T]"
  have a: "parseVariableDeclaration 60 ?a 0
     = Ok (VariableDeclaration False (TypeName ''int32'' True []) ''y'' None, 4)"
    by (simp add: parser_eval cong: and_then_weak_cong)
  have b: "parseVariableDeclaration 60 ?b 0
     = Ok (VariableDeclaration True (TypeName ''int32'' True []) ''y''
             (Some (NumericLiteral_uint64 1)), 6)"
    by (simp add: parser_eval cong: and_then_weak_cong)
  from parseVariableDeclaration_isMutable [OF a] parseVariableDeclaration_isMutable [OF b] a b
  show ?thesis by simp
qed

section \<open>The parameter list of a function declaration\<close>

lemma params_after_parameter:
  assumes "i < length ts" "starts_parameter (ts ! i)" "read_parameter ts i = Ok (p, j)"
  shows "parseFunctionDeclaration_params f_name ts i acc =
     and_then (peek ts j) (\<lambda>maybe_comma.
     and_then
       (if ttype maybe_comma = Comma then and_then (eat ts j) (\<lambda>(_, i5). Ok i5)
        else if ttype maybe_comma \<noteq> CParen
        then Error (''invalid parameter list for function '' @ f_name)
        else Ok j)
       (\<lambda>i6. parseFunctionDeclaration_params f_name ts i6 (acc @ [p])))"
proof -
  from assms(3) obtain isMutable i1 p_type i2 isRef isPtr i3 p_name where
    r: "eatIfMutable ts i = Ok (isMutable, i1)" "eat ts i1 = Ok (p_type, i2)"
       "eatIfRefOrPtr ts i2 = Ok (isRef, isPtr, i3)"
       "expect Identifier ''parameters must have a type and name'' ts i3 = Ok (p_name, j)"
       "Parameter_ctor isMutable (tvalue p_type) isRef isPtr (tvalue p_name) = Ok p"
    unfolding read_parameter_def by (auto dest!: and_then_Ok)
  from assms(1,2) have "peek ts i = Ok (ts ! i)"
    "ttype (ts ! i) = ClassType \<or> ttype (ts ! i) = PrimitiveType \<or> ttype (ts ! i) = mutable_T"
    by (simp_all add: peek_def starts_parameter_def)
  with r show ?thesis
    by (subst parseFunctionDeclaration_params.simps) simp
qed

lemma params_stop:
  "i < length ts \<Longrightarrow> \<not> starts_parameter (ts ! i) \<Longrightarrow>
   parseFunctionDeclaration_params f_name ts i acc = Ok (acc, i)"
  by (subst parseFunctionDeclaration_params.simps) (simp add: peek_def starts_parameter_def)

text \<open>
  C9 as stated says that a trailing comma in the parameter list is rejected. After a
  \<^verbatim>\<open>Comma\<close> the loop only tests whether a parameter starts; at the \<^verbatim>\<open>CParen\<close> it ends, and
  \<^verbatim>\<open>expect( CParen )\<close> succeeds: \<^verbatim>\<open>void f(int32 a,) { }\<close> parses to a function declaration
  with one parameter.
\<close>

theorem trailing_comma_counterexample:
  "fst (tokenize {} ''void f(int32 a,) { }'') =
     Inr [Token ''void'' PrimitiveType, Token ''f'' Identifier, Token ''('' OParen,
          Token ''int32'' PrimitiveType, Token ''a'' Identifier, Token '','' Comma,
          Token '')'' CParen, Token ''{'' OCurlyBrace, Token ''}'' CCurlyBrace, Token [] EOF_T]
   \<and> produceAST 60
     [Token ''void'' PrimitiveType, Token ''f'' Identifier, Token ''('' OParen,
      Token ''int32'' PrimitiveType, Token ''a'' Identifier, Token '','' Comma,
      Token '')'' CParen, Token ''{'' OCurlyBrace, Token ''}'' CCurlyBrace, Token [] EOF_T]
     = Ok [FunctionDeclaration (TypeName ''void'' False []) ''f''
             [Parameter (TypeName ''int32'' False []) ''a''] []]"
proof -
  have 1: "fst (tokenize {} ''void f(int32 a,) { }'') =
     Inr [Token ''void'' PrimitiveType, Token ''f'' Identifier, Token ''('' OParen,
          Token ''int32'' PrimitiveType, Token ''a'' Identifier, Token '','' Comma,
          Token '')'' CParen, Token ''{'' OCurlyBrace, Token ''}'' CCurlyBrace, Token [] EOF_T]"
    by code_simp
  have 2: "produceAST 60
     [Token ''void'' PrimitiveType, Token ''f'' Identifier, Token ''('' OParen,
      Token ''int32'' PrimitiveType, Token ''a'' Identifier, Token '','' Comma,
      Token '')'' CParen, Token ''{'' OCurlyBrace, Token ''}'' CCurlyBrace, Token [] EOF_T]
     = Ok [FunctionDeclaration (TypeName ''void'' False []) ''f''
             [Parameter (TypeName ''int32'' False []) ''a''] []]"
    by (simp add: parser_eval cong: and_then_weak_cong)
  from 1 2 show ?thesis by simp
qed

text \<open>
  C9, amended: after a parameter of a function declaration only \<^verbatim>\<open>Comma\<close> (the loop goes on
  behind it) or \<^verbatim>\<open>CParen\<close> (the loop stops there) is accepted, and any other token raises
  the error \<^verbatim>\<open>invalid parameter list for function\<close> followed by the name of the function;
  a trailing comma, that is a \<^verbatim>\<open>Comma\<close> immediately followed by \<^verbatim>\<open>CParen\<close>, is accepted and
  ends the list at that \<^verbatim>\<open>CParen\<close>.
\<close>

theorem parameter_separator:
  assumes "i < length ts" "starts_parameter (ts ! i)" "read_parameter ts i = Ok (p, j)"
    "j < length ts"
  shows "(ttype (ts ! j) = Comma \<longrightarrow>
            parseFunctionDeclaration_params f_name ts i acc =
            parseFunctionDeclaration_params f_name ts (j + 1) (acc @ [p]))
       \<and> (ttype (ts ! j) = Comma \<and> j + 1 < length ts \<and> ttype (ts ! (j + 1)) = CParen \<longrightarrow>
            parseFunctionDeclaration_params f_name ts i acc = Ok (acc @ [p], j + 1))
       \<and> (ttype (ts ! j) = CParen \<longrightarrow>
            parseFunctionDeclaration_params f_name ts i acc = Ok (acc @ [p], j))
       \<and> (ttype (ts ! j) \<noteq> Comma \<and> ttype (ts ! j) \<noteq> CParen \<longrightarrow>
            parseFunctionDeclaration_params f_name ts i acc =
            Error (''invalid parameter list for function '' @ f_name))"
proof -
  note u = params_after_parameter [OF assms(1-3), of f_name acc]
  have pk: "peek ts j = Ok (ts ! j)" using assms(4) by (simp add: peek_def)
  have et: "eat ts j = Ok (ts ! j, j + 1)" using assms(4) by (simp add: eat_def)
  have cp: "ttype tk = CParen \<Longrightarrow> \<not> starts_parameter tk" for tk
    by (simp add: starts_parameter_def)
  have A: "ttype (ts ! j) = Comma \<longrightarrow>
            parseFunctionDeclaration_params f_name ts i acc =
            parseFunctionDeclaration_params f_name ts (j + 1) (acc @ [p])"
    using u pk et by simp
  have B: "ttype (ts ! j) = Comma \<and> j + 1 < length ts \<and> ttype (ts ! (j + 1)) = CParen \<longrightarrow>
            parseFunctionDeclaration_params f_name ts i acc = Ok (acc @ [p], j + 1)"
    using A params_stop [of "j + 1" ts f_name "acc @ [p]"] cp by auto
  have C: "ttype (ts ! j) = CParen \<longrightarrow>
            parseFunctionDeclaration_params f_name ts i acc = Ok (acc @ [p], j)"
    using u pk params_stop [of j ts f_name "acc @ [p]"] cp assms(4) by auto
  have D: "ttype (ts ! j) \<noteq> Comma \<and> ttype (ts ! j) \<noteq> CParen \<longrightarrow>
            parseFunctionDeclaration_params f_name ts i acc =
            Error (''invalid parameter list for function '' @ f_name)"
    using u pk by simp
  from A B C D show ?thesis by blast
qed

theorem parameter_separator_witness:
  "read_parameter
     [Token ''void'' PrimitiveType, Token ''f'' Identifier, Token ''('' OParen,
      Token ''int32'' PrimitiveType, Token ''a'' Identifier, Token '','' Comma,
      Token '')'' CParen, Token ''{'' OCurlyBrace, Token ''}'' CCurlyBrace, Token [] EOF_T] 3
     = Ok (Parameter (TypeName ''int32'' False []) ''a'', 5)
   \<and> parseFunctionDeclaration_params ''f''
     [Token ''void'' PrimitiveType, Token ''f'' Identifier, Token ''('' OParen,
      Token ''int32'' PrimitiveType, Token ''a'' Identifier, Token '','' Comma,
      Token '')'' CParen, Token ''{'' OCurlyBrace, Token ''}'' CCurlyBrace, Token [] EOF_T] 3 []
     = Ok ([Parameter (TypeName ''int32'' False []) ''a''], 6)
   \<and> parseFunctionDeclaration_params ''f''
     [Token ''void'' PrimitiveType, Token ''f'' Identifier, Token ''('' OParen,
      Token ''int32'' PrimitiveType, Token ''a'' Identifier, Token ''int32'' PrimitiveType,
      Token ''b'' Identifier, Token '')'' CParen, Token [] EOF_T] 3 []
     = Error ''invalid parameter list for function f''"
proof -
  let ?a = "[Token ''void'' PrimitiveType, Token ''f'' Identifier, Token ''('' OParen,
      Token ''int32'' PrimitiveType, Token ''a'' Identifier, Token '','' Comma,
      Token '')'' CParen, Token ''{'' OCurlyBrace, Token ''}'' CCurlyBrace, Token [] EOF_T]"
  let ?b = "[Token ''void'' PrimitiveType, Token ''f'' Identifier, Token ''('' OParen,
      Token ''int32'' PrimitiveType, Token ''a'' Identifier, Token ''int32'' PrimitiveType,
      Token ''b'' Identifier, Token '')'' CParen, Token [] EOF_T]"
  let ?p = "Parameter (TypeName ''int32'' False []) ''a''"
  have ra: "read_parameter ?a 3 = Ok (?p, 5)"
    by (simp add: read_parameter_def parser_prims)
  have rb: "read_parameter ?b 3 = Ok (?p, 5)"
    by (simp add: read_parameter_def parser_prims)
  have sa: "(3::nat) < length ?a" "starts_parameter (?a ! 3)" "(5::nat) < length ?a"
    by (simp_all add: starts_parameter_def)
  have sb: "(3::nat) < length ?b" "starts_parameter (?b ! 3)" "(5::nat) < length ?b"
    by (simp_all add: starts_parameter_def)
  from parameter_separator [OF sa(1,2) ra sa(3), of "''f''" "[]", THEN conjunct2, THEN conjunct1]
  have 1: "parseFunctionDeclaration_params ''f'' ?a 3 [] = Ok ([?p], 6)" by simp
  from parameter_separator [OF sb(1,2) rb sb(3), of "''f''" "[]",
      THEN conjunct2, THEN conjunct2, THEN conjunct2]
  have 2: "parseFunctionDeclaration_params ''f'' ?b 3 [] = Error ''invalid parameter list for function f''"
    by simp
  from ra 1 2 show ?thesis by simp
qed

section \<open>The body of an if statement\<close>

text \<open>
  In the braced body every item is parsed by \<^verbatim>\<open>parseExpression\<close>, so an \<^verbatim>\<open>if\<close> there
  reaches \<^verbatim>\<open>parsePrimaryExpression\<close> and is refused, whereas the unbraced body goes through
  \<^verbatim>\<open>parseStatement\<close>, which hands an \<^verbatim>\<open>if\<close> to \<^verbatim>\<open>parseIfStatement\<close>.
\<close>

lemma braced_if_body_rejects_if:
  assumes "i + 1 < length ts" "ttype (ts ! i) = if_T" "ttype (ts ! (i + 1)) = OParen"
  shows "parseIfStatement_loop (Suc (Suc (Suc (Suc (Suc (Suc (Suc (Suc (Suc n))))))))) ts i stmts
         = Error ''Unexpected token found during parsing!''"
  using assms
  by (simp add: expr_parsers_Suc stmt_parsers_Suc expr_parsers_fold stmt_parsers_fold
      expr_parser_bodies stmt_parser_bodies peek_def peekNext_def
      cong: and_then_weak_cong)

lemma unbraced_if_body_dispatches:
  assumes "i + 1 < length ts" "ttype (ts ! i) = if_T"
  shows "parseStatement False (Suc n) ts i = parseIfStatement n ts i"
  using assms
  by (simp add: stmt_parsers_Suc stmt_parsers_fold stmt_parser_bodies peek_def
      cong: and_then_weak_cong)

text \<open>
  C6: inside the braces of an if statement the body is parsed by the statement dispatcher,
  so that a nested if statement is accepted there as it is in the unbraced form. The code
  parses the braced body with \<^verbatim>\<open>parseExpression\<close> instead: the source
  \<^verbatim>\<open>if (a == b) { if (a == b) x = 1; }\<close> is refused with
  \<^verbatim>\<open>Unexpected token found during parsing!\<close>, while the same nested statement without the
  braces is parsed; both at every call depth from 60 on.
\<close>

theorem braced_if_rejects_nested_if:
  "fst (tokenize {} ''if (a == b) { if (a == b) x = 1; }'') =
     Inr [Token ''if'' if_T, Token ''('' OParen, Token ''a'' Identifier,
          Token ''=='' EqualsEquals, Token ''b'' Identifier, Token '')'' CParen,
          Token ''{'' OCurlyBrace, Token ''if'' if_T, Token ''('' OParen,
          Token ''a'' Identifier, Token ''=='' EqualsEquals, Token ''b'' Identifier,
          Token '')'' CParen, Token ''x'' Identifier, Token ''='' Equals,
          Token ''1'' integer_literal, Token '';'' Semicolon, Token ''}'' CCurlyBrace,
          Token [] EOF_T]
   \<and> produceAST (60 + k)
     [Token ''if'' if_T, Token ''('' OParen, Token ''a'' Identifier,
      Token ''=='' EqualsEquals, Token ''b'' Identifier, Token '')'' CParen,
      Token ''{'' OCurlyBrace, Token ''if'' if_T, Token ''('' OParen,
      Token ''a'' Identifier, Token ''=='' EqualsEquals, Token ''b'' Identifier,
      Token '')'' CParen, Token ''x'' Identifier, Token ''='' Equals,
      Token ''1'' integer_literal, Token '';'' Semicolon, Token ''}'' CCurlyBrace,
      Token [] EOF_T]
     = Error ''Unexpected token found during parsing!''
   \<and> produceAST (60 + k)
     [Token ''if'' if_T, Token ''('' OParen, Token ''a'' Identifier,
      Token ''=='' EqualsEquals, Token ''b'' Identifier, Token '')'' CParen,
      Token ''if'' if_T, Token ''('' OParen,
      Token ''a'' Identifier, Token ''=='' EqualsEquals, Token ''b'' Identifier,
      Token '')'' CParen, Token ''x'' Identifier, Token ''='' Equals,
      Token ''1'' integer_literal, Token '';'' Semicolon, Token [] EOF_T]
     = Ok [IfStatement (BinaryExpression (Identifier_ast ''a'') ''=='' (Identifier_ast ''b''))
            [IfStatement (BinaryExpression (Identifier_ast ''a'') ''=='' (Identifier_ast ''b''))
              [AssignmentExpression (Identifier_ast ''x'') (NumericLiteral_uint64 1)]]]"
proof -
  have 1: "fst (tokenize {} ''if (a == b) { if (a == b) x = 1; }'') =
     Inr [Token ''if'' if_T, Token ''('' OParen, Token ''a'' Identifier,
          Token ''=='' EqualsEquals, Token ''b'' Identifier, Token '')'' CParen,
          Token ''{'' OCurlyBrace, Token ''if'' if_T, Token ''('' OParen,
          Token ''a'' Identifier, Token ''=='' EqualsEquals, Token ''b'' Identifier,
          Token '')'' CParen, Token ''x'' Identifier, Token ''='' Equals,
          Token ''1'' integer_literal, Token '';'' Semicolon, Token ''}'' CCurlyBrace,
          Token [] EOF_T]"
    by code_simp
  have 2: "produceAST (60 + k)
     [Token ''if'' if_T, Token ''('' OParen, Token ''a'' Identifier,
      Token ''=='' EqualsEquals, Token ''b'' Identifier, Token '')'' CParen,
      Token ''{'' OCurlyBrace, Token ''if'' if_T, Token ''('' OParen,
      Token ''a'' Identifier, Token ''=='' EqualsEquals, Token ''b'' Identifier,
      Token '')'' CParen, Token ''x'' Identifier, Token ''='' Equals,
      Token ''1'' integer_literal, Token '';'' Semicolon, Token ''}'' CCurlyBrace,
      Token [] EOF_T]
     = Error ''Unexpected token found during parsing!''"
    by (rule produceAST_depth [of 60]) (simp_all add: parser_eval cong: and_then_weak_cong)
  have 3: "produceAST (60 + k)
     [Token ''if'' if_T, Token ''('' OParen, Token ''a'' Identifier,
      Token ''=='' EqualsEquals, Token ''b'' Identifier, Token '')'' CParen,
      Token ''if'' if_T, Token ''('' OParen,
      Token ''a'' Identifier, Token ''=='' EqualsEquals, Token ''b'' Identifier,
      Token '')'' CParen, Token ''x'' Identifier, Token ''='' Equals,
      Token ''1'' integer_literal, Token '';'' Semicolon, Token [] EOF_T]
     = Ok [IfStatement (BinaryExpression (Identifier_ast ''a'') ''=='' (Identifier_ast ''b''))
            [IfStatement (BinaryExpression (Identifier_ast ''a'') ''=='' (Identifier_ast ''b''))
              [AssignmentExpression (Identifier_ast ''x'') (NumericLiteral_uint64 1)]]]"
    by (rule produceAST_depth [of 60]) (simp_all add: parser_eval cong: and_then_weak_cong)
  from 1 2 3 show ?thesis by simp
qed

end

